theory Spec2Isabelle
  imports Complex_Main "HOL-Library.Sublist" "HOL-Library.Multiset" "HOL-Library.Option_ord"
begin

section \<open>Cart store (src/src/store/cartStore.js)\<close>

text \<open>
  A cart line follows the \<^verbatim>\<open>CartItem\<close> typedef of the source: every field is present.
  Identifiers are compared with \<^verbatim>\<open>===\<close>, which on strings and (non-NaN) numbers is
  equality, so the identifier type is left open. JavaScript numbers are modelled as exact
  rationals: no rounding, no \<^verbatim>\<open>NaN\<close>, no infinities.
\<close>

record ('id, 'm) CartItem =
  item_id :: 'id
  title :: string
  price :: rat
  quantity :: rat
  image :: string
  metadata :: 'm

record ('id, 'm) CartState =
  items :: "('id, 'm) CartItem list"
  totalItems :: rat
  totalPrice :: rat
  isEmpty :: bool

text \<open>\<^verbatim>\<open>calculateTotals\<close>: the two \<^verbatim>\<open>reduce\<close> calls are left folds starting at 0.\<close>

definition calculateTotals :: "('id, 'm) CartItem list \<Rightarrow> ('id, 'm) CartState" where
  "calculateTotals its =
     \<lparr> items = its,
       totalItems = foldl (\<lambda>total item. total + quantity item) 0 its,
       totalPrice = foldl (\<lambda>total item. total + price item * quantity item) 0 its,
       isEmpty = (length its = 0) \<rparr>"

definition initialState :: "('id, 'm) CartState" where
  "initialState = \<lparr> items = [], totalItems = 0, totalPrice = 0, isEmpty = True \<rparr>"

text \<open>\<^verbatim>\<open>Array.prototype.findIndex\<close>: the first index whose element satisfies the
  predicate; \<^verbatim>\<open>-1\<close> is \<open>None\<close>.\<close>

fun findIndex :: "('a \<Rightarrow> bool) \<Rightarrow> 'a list \<Rightarrow> nat option" where
  "findIndex P [] = None"
| "findIndex P (x # xs) =
     (if P x then Some 0 else (case findIndex P xs of None \<Rightarrow> None | Some i \<Rightarrow> Some (Suc i)))"

text \<open>\<^verbatim>\<open>.filter(Boolean)\<close> on an array of objects and \<^verbatim>\<open>null\<close>s drops the \<^verbatim>\<open>null\<close>s.\<close>

fun filterBoolean :: "'a option list \<Rightarrow> 'a list" where
  "filterBoolean [] = []"
| "filterBoolean (None # xs) = filterBoolean xs"
| "filterBoolean (Some x # xs) = x # filterBoolean xs"

text \<open>
  Every action hands \<^verbatim>\<open>set\<close> an object with the four state keys, so the new state is
  that object. In \<^verbatim>\<open>addItem\<close> the spread \<^verbatim>\<open>{...defaultItem, ...item, quantity}\<close> keeps
  every field of a fully populated \<^verbatim>\<open>item\<close> and overrides its quantity.
\<close>

definition addItem ::
  "('id, 'm) CartItem \<Rightarrow> rat \<Rightarrow> ('id, 'm) CartState \<Rightarrow> ('id, 'm) CartState" where
  "addItem item qty state =
     (case findIndex (\<lambda>cartItem. item_id cartItem = item_id item) (items state) of
        Some existingItemIndex \<Rightarrow>
          (let old = items state ! existingItemIndex;
               updatedItems =
                 (items state)[existingItemIndex := old\<lparr>quantity := quantity old + qty\<rparr>]
           in calculateTotals updatedItems)
      | None \<Rightarrow>
          (let newItem = item\<lparr>quantity := qty\<rparr>;
               updatedItems = items state @ [newItem]
           in calculateTotals updatedItems))"

definition removeItem :: "'id \<Rightarrow> ('id, 'm) CartState \<Rightarrow> ('id, 'm) CartState" where
  "removeItem itemId state =
     calculateTotals (filter (\<lambda>item. item_id item \<noteq> itemId) (items state))"

definition updateQuantity :: "'id \<Rightarrow> rat \<Rightarrow> ('id, 'm) CartState \<Rightarrow> ('id, 'm) CartState" where
  "updateQuantity itemId qty state =
     (if qty \<le> 0 then removeItem itemId state
      else calculateTotals
             (map (\<lambda>item. if item_id item = itemId then item\<lparr>quantity := qty\<rparr> else item)
                  (items state)))"

definition incrementItem :: "'id \<Rightarrow> rat \<Rightarrow> ('id, 'm) CartState \<Rightarrow> ('id, 'm) CartState" where
  "incrementItem itemId amount state =
     calculateTotals
       (map (\<lambda>item. if item_id item = itemId
                     then item\<lparr>quantity := quantity item + amount\<rparr> else item)
            (items state))"

definition decrementItem :: "'id \<Rightarrow> rat \<Rightarrow> ('id, 'm) CartState \<Rightarrow> ('id, 'm) CartState" where
  "decrementItem itemId amount state =
     calculateTotals
       (filterBoolean
          (map (\<lambda>item. if item_id item = itemId
                        then (let newQuantity = quantity item - amount
                              in if newQuantity \<le> 0 then None
                                 else Some (item\<lparr>quantity := newQuantity\<rparr>))
                        else Some item)
               (items state)))"

definition clearCart :: "('id, 'm) CartState \<Rightarrow> ('id, 'm) CartState" where
  "clearCart state = initialState"

text \<open>\<^verbatim>\<open>item.quantity || 1\<close>: a quantity of 0 is falsy and becomes 1.\<close>

definition quantityOr1 :: "('id, 'm) CartItem \<Rightarrow> rat" where
  "quantityOr1 item = (if quantity item = 0 then 1 else quantity item)"

fun addMultipleLoop ::
  "('id, 'm) CartItem list \<Rightarrow> ('id, 'm) CartItem list \<Rightarrow> ('id, 'm) CartItem list" where
  "addMultipleLoop [] updatedItems = updatedItems"
| "addMultipleLoop (item # rest) updatedItems =
     addMultipleLoop rest
       (case findIndex (\<lambda>cartItem. item_id cartItem = item_id item) updatedItems of
          Some existingItemIndex \<Rightarrow>
            (let old = updatedItems ! existingItemIndex
             in updatedItems[existingItemIndex :=
                  old\<lparr>quantity := quantity old + quantityOr1 item\<rparr>])
        | None \<Rightarrow> updatedItems @ [item\<lparr>quantity := quantityOr1 item\<rparr>])"

definition addMultipleItems ::
  "('id, 'm) CartItem list \<Rightarrow> ('id, 'm) CartState \<Rightarrow> ('id, 'm) CartState" where
  "addMultipleItems its state = calculateTotals (addMultipleLoop its (items state))"

definition removeMultipleItems ::
  "'id list \<Rightarrow> ('id, 'm) CartState \<Rightarrow> ('id, 'm) CartState" where
  "removeMultipleItems itemIds state =
     calculateTotals (filter (\<lambda>item. item_id item \<notin> set itemIds) (items state))"

text \<open>The \<^verbatim>\<open>updates\<close> object is a partial map from identifiers to new quantities.\<close>

definition updateMultipleQuantities ::
  "('id \<Rightarrow> rat option) \<Rightarrow> ('id, 'm) CartState \<Rightarrow> ('id, 'm) CartState" where
  "updateMultipleQuantities updates state =
     calculateTotals
       (filterBoolean
          (map (\<lambda>item. case updates (item_id item) of
                          Some newQuantity \<Rightarrow>
                            if newQuantity \<le> 0 then None
                            else Some (item\<lparr>quantity := newQuantity\<rparr>)
                        | None \<Rightarrow> Some item)
               (items state)))"

text \<open>The mutating operations of the store, and a run of any sequence of them from the
  initial state.\<close>

datatype ('id, 'm) cart_op =
    AddItem "('id, 'm) CartItem" rat
  | RemoveItem 'id
  | UpdateQuantity 'id rat
  | IncrementItem 'id rat
  | DecrementItem 'id rat
  | ClearCart
  | AddMultipleItems "('id, 'm) CartItem list"
  | RemoveMultipleItems "'id list"
  | UpdateMultipleQuantities "'id \<Rightarrow> rat option"

fun apply_cart_op :: "('id, 'm) cart_op \<Rightarrow> ('id, 'm) CartState \<Rightarrow> ('id, 'm) CartState" where
  "apply_cart_op (AddItem item qty) s = addItem item qty s"
| "apply_cart_op (RemoveItem i) s = removeItem i s"
| "apply_cart_op (UpdateQuantity i q) s = updateQuantity i q s"
| "apply_cart_op (IncrementItem i a) s = incrementItem i a s"
| "apply_cart_op (DecrementItem i a) s = decrementItem i a s"
| "apply_cart_op ClearCart s = clearCart s"
| "apply_cart_op (AddMultipleItems its) s = addMultipleItems its s"
| "apply_cart_op (RemoveMultipleItems is) s = removeMultipleItems is s"
| "apply_cart_op (UpdateMultipleQuantities u) s = updateMultipleQuantities u s"

definition run_cart :: "('id, 'm) cart_op list \<Rightarrow> ('id, 'm) CartState" where
  "run_cart ops = foldl (\<lambda>s op. apply_cart_op op s) initialState ops"


text \<open>A sample cart line for closed examples.\<close>

definition demo_item :: "nat \<Rightarrow> rat \<Rightarrow> rat \<Rightarrow> (nat, unit) CartItem" where
  "demo_item i p q =
     \<lparr> item_id = i, title = ''Item'', price = p, quantity = q, image = '''', metadata = () \<rparr>"

section \<open>Wishlist store (src/unnamed/part_003)\<close>

text \<open>
  A wishlist item follows the \<^verbatim>\<open>WishlistItem\<close> typedef: every field present, no
  quantity. The spread \<^verbatim>\<open>{...defaultItem, ...item}\<close> of a fully populated item is the
  item.
\<close>

record ('id, 'm) WishlistItem =
  wl_id :: 'id
  wl_title :: string
  wl_price :: rat
  wl_image :: string
  wl_metadata :: 'm

record ('id, 'm) WishlistState =
  wl_items :: "('id, 'm) WishlistItem list"
  wl_totalItems :: nat
  wl_isEmpty :: bool

definition wl_calculateTotals :: "('id, 'm) WishlistItem list \<Rightarrow> ('id, 'm) WishlistState" where
  "wl_calculateTotals its =
     \<lparr> wl_items = its, wl_totalItems = length its, wl_isEmpty = (length its = 0) \<rparr>"

definition wl_initialState :: "('id, 'm) WishlistState" where
  "wl_initialState = \<lparr> wl_items = [], wl_totalItems = 0, wl_isEmpty = True \<rparr>"

text \<open>\<^verbatim>\<open>addItem\<close>: an item whose identifier is already present returns the state
  unchanged.\<close>

definition wl_addItem ::
  "('id, 'm) WishlistItem \<Rightarrow> ('id, 'm) WishlistState \<Rightarrow> ('id, 'm) WishlistState" where
  "wl_addItem item state =
     (case List.find (\<lambda>wishlistItem. wl_id wishlistItem = wl_id item) (wl_items state) of
        Some existingItem \<Rightarrow> state
      | None \<Rightarrow> wl_calculateTotals (wl_items state @ [item]))"

definition wl_removeItem :: "'id \<Rightarrow> ('id, 'm) WishlistState \<Rightarrow> ('id, 'm) WishlistState" where
  "wl_removeItem itemId state =
     wl_calculateTotals (filter (\<lambda>item. wl_id item \<noteq> itemId) (wl_items state))"

definition isItemInWishlist :: "'id \<Rightarrow> ('id, 'm) WishlistState \<Rightarrow> bool" where
  "isItemInWishlist itemId state = list_ex (\<lambda>wishlistItem. wl_id wishlistItem = itemId) (wl_items state)"

definition toggleItem ::
  "('id, 'm) WishlistItem \<Rightarrow> ('id, 'm) WishlistState \<Rightarrow> bool \<times> ('id, 'm) WishlistState" where
  "toggleItem item state =
     (if isItemInWishlist (wl_id item) state
      then (False, wl_removeItem (wl_id item) state)
      else (True, wl_addItem item state))"

definition clearWishlist :: "('id, 'm) WishlistState \<Rightarrow> ('id, 'm) WishlistState" where
  "clearWishlist state = wl_initialState"

text \<open>
  \<^verbatim>\<open>moveToCart\<close>: the callback acts on a world of its own (the cart, a call log);
  an absent callback is \<open>None\<close>. The result is the returned item (\<^verbatim>\<open>undefined\<close> is
  \<open>None\<close>), the wishlist and the world.
\<close>

definition moveToCart ::
  "'id \<Rightarrow> (('id, 'm) WishlistItem \<Rightarrow> rat \<Rightarrow> 'w \<Rightarrow> 'w) option \<Rightarrow>
   ('id, 'm) WishlistState \<times> 'w \<Rightarrow> ('id, 'm) WishlistItem option \<times> ('id, 'm) WishlistState \<times> 'w" where
  "moveToCart itemId addToCartCallback sw =
     (case sw of (state, world) \<Rightarrow>
       (case (List.find (\<lambda>wishlistItem. wl_id wishlistItem = itemId) (wl_items state),
              addToCartCallback) of
          (Some item, Some callback) \<Rightarrow>
            (Some item, wl_removeItem itemId state, callback item 1 world)
        | _ \<Rightarrow> (None, state, world)))"

text \<open>The mutating operations of the wishlist and a run of them from the initial state.\<close>

datatype ('id, 'm) wishlist_op =
    WlAddItem "('id, 'm) WishlistItem"
  | WlRemoveItem 'id
  | WlToggleItem "('id, 'm) WishlistItem"
  | WlClear
  | WlMoveToCart 'id

fun apply_wishlist_op ::
  "('id, 'm) wishlist_op \<Rightarrow> ('id, 'm) WishlistState \<Rightarrow> ('id, 'm) WishlistState" where
  "apply_wishlist_op (WlAddItem item) s = wl_addItem item s"
| "apply_wishlist_op (WlRemoveItem i) s = wl_removeItem i s"
| "apply_wishlist_op (WlToggleItem item) s = snd (toggleItem item s)"
| "apply_wishlist_op WlClear s = clearWishlist s"
| "apply_wishlist_op (WlMoveToCart i) s =
     fst (snd (moveToCart i (Some (\<lambda>item qty (u::unit). u)) (s, ())))"

definition run_wishlist :: "('id, 'm) wishlist_op list \<Rightarrow> ('id, 'm) WishlistState" where
  "run_wishlist ops = foldl (\<lambda>s op. apply_wishlist_op op s) wl_initialState ops"

text \<open>A callback that records each call it receives.\<close>

definition record_call ::
  "('id, 'm) WishlistItem \<Rightarrow> rat \<Rightarrow> (('id, 'm) WishlistItem \<times> rat) list \<Rightarrow>
   (('id, 'm) WishlistItem \<times> rat) list" where
  "record_call item qty calls = calls @ [(item, qty)]"

definition demo_wish :: "nat \<Rightarrow> (nat, unit) WishlistItem" where
  "demo_wish i = \<lparr> wl_id = i, wl_title = ''Wish'', wl_price = 10, wl_image = '''', wl_metadata = () \<rparr>"

text \<open>The wishlist totals as derived from the items.\<close>

definition wl_consistent :: "('id, 'm) WishlistState \<Rightarrow> bool" where
  "wl_consistent s \<longleftrightarrow> wl_totalItems s = length (wl_items s) \<and> (wl_isEmpty s \<longleftrightarrow> wl_items s = [])"

section \<open>JavaScript values\<close>

text \<open>
  The records the search, filter and validation code reads are plain JavaScript objects.
  A number is \<^verbatim>\<open>NaN\<close> or an exact rational (no rounding, no infinities); an object is the
  list of its own properties (arrays and functions are not modelled).
\<close>

datatype jsnum = NaN | Num rat

datatype jsval =
    JUndefined
  | JNull
  | JBool bool
  | JNum jsnum
  | JStr string
  | JObj "(string \<times> jsval) list"

text \<open>
  Built-ins whose results the model does not compute are parameters of the functions that
  call them: \<^verbatim>\<open>String(n)\<close> for a finite number, \<^verbatim>\<open>Number(s)\<close> for a string, and
  \<^verbatim>\<open>new RegExp(pattern, flags).test(text)\<close>, which is \<open>None\<close> when the constructor throws.
\<close>

record js_builtins =
  numToString :: "rat \<Rightarrow> string"
  parseNumber :: "string \<Rightarrow> jsnum"
  regexTest :: "string \<Rightarrow> string \<Rightarrow> string \<Rightarrow> bool option"

text \<open>\<^verbatim>\<open>typeof\<close>, truthiness, and the comparisons of numbers (false when a side is \<^verbatim>\<open>NaN\<close>).\<close>

fun typeof :: "jsval \<Rightarrow> string" where
  "typeof JUndefined = ''undefined''"
| "typeof JNull = ''object''"
| "typeof (JBool b) = ''boolean''"
| "typeof (JNum n) = ''number''"
| "typeof (JStr s) = ''string''"
| "typeof (JObj ps) = ''object''"

fun truthy :: "jsval \<Rightarrow> bool" where
  "truthy JUndefined = False"
| "truthy JNull = False"
| "truthy (JBool b) = b"
| "truthy (JNum NaN) = False"
| "truthy (JNum (Num q)) = (q \<noteq> 0)"
| "truthy (JStr s) = (s \<noteq> [])"
| "truthy (JObj ps) = True"

fun isNaN :: "jsnum \<Rightarrow> bool" where
  "isNaN NaN = True"
| "isNaN (Num q) = False"

fun num_less :: "jsnum \<Rightarrow> jsnum \<Rightarrow> bool" where
  "num_less (Num a) (Num b) = (a < b)"
| "num_less _ _ = False"

fun num_less_eq :: "jsnum \<Rightarrow> jsnum \<Rightarrow> bool" where
  "num_less_eq (Num a) (Num b) = (a \<le> b)"
| "num_less_eq _ _ = False"

text \<open>The number held by a value of type number (read only behind a \<^verbatim>\<open>typeof\<close> test).\<close>

fun as_number :: "jsval \<Rightarrow> jsnum" where
  "as_number (JNum n) = n"
| "as_number _ = NaN"

text \<open>
  \<^verbatim>\<open>obj[key]\<close> on a value that is neither \<^verbatim>\<open>null\<close> nor \<^verbatim>\<open>undefined\<close>: an own property
  of an object, else \<^verbatim>\<open>undefined\<close>. Properties of primitives (a string's length and
  indices, inherited methods) are not modelled and read as \<^verbatim>\<open>undefined\<close>.
\<close>

fun get_prop :: "jsval \<Rightarrow> string \<Rightarrow> jsval" where
  "get_prop (JObj ps) key = (case map_of ps key of Some v \<Rightarrow> v | None \<Rightarrow> JUndefined)"
| "get_prop _ key = JUndefined"

text \<open>Optional chaining \<^verbatim>\<open>obj?.key\<close>.\<close>

definition opt_chain :: "jsval \<Rightarrow> string \<Rightarrow> jsval" where
  "opt_chain v key = (if v = JNull \<or> v = JUndefined then JUndefined else get_prop v key)"

text \<open>\<^verbatim>\<open>Number(v)\<close> and \<^verbatim>\<open>String(v)\<close> (a plain object has the default conversions).\<close>

fun js_Number :: "'b js_builtins_scheme \<Rightarrow> jsval \<Rightarrow> jsnum" where
  "js_Number B JUndefined = NaN"
| "js_Number B JNull = Num 0"
| "js_Number B (JBool b) = (if b then Num 1 else Num 0)"
| "js_Number B (JNum n) = n"
| "js_Number B (JStr s) = parseNumber B s"
| "js_Number B (JObj ps) = NaN"

fun js_String :: "'b js_builtins_scheme \<Rightarrow> jsval \<Rightarrow> string" where
  "js_String B JUndefined = ''undefined''"
| "js_String B JNull = ''null''"
| "js_String B (JBool b) = (if b then ''true'' else ''false'')"
| "js_String B (JNum NaN) = ''NaN''"
| "js_String B (JNum (Num q)) = numToString B q"
| "js_String B (JStr s) = s"
| "js_String B (JObj ps) = ''[object Object]''"

text \<open>\<^verbatim>\<open>toLowerCase\<close> on the ASCII letters; other characters are kept.\<close>

definition toLowerCase_char :: "char \<Rightarrow> char" where
  "toLowerCase_char c =
     (case map_of (zip ''ABCDEFGHIJKLMNOPQRSTUVWXYZ'' ''abcdefghijklmnopqrstuvwxyz'') c of
        Some l \<Rightarrow> l
      | None \<Rightarrow> c)"

definition toLowerCase :: "string \<Rightarrow> string" where
  "toLowerCase s = map toLowerCase_char s"

text \<open>
  Built-ins for closed examples: \<^verbatim>\<open>Number\<close> on the empty string and on strings of
  decimal digits, as JavaScript computes it, and \<^verbatim>\<open>NaN\<close> on every other string; the other
  two are not consulted by the examples.
\<close>

fun digit_value :: "char \<Rightarrow> nat option" where
  "digit_value c =
     (let n = (of_char c :: nat) in if 48 \<le> n \<and> n \<le> 57 then Some (n - 48) else None)"

fun parse_digits :: "nat \<Rightarrow> string \<Rightarrow> nat option" where
  "parse_digits acc [] = Some acc"
| "parse_digits acc (c # cs) =
     (case digit_value c of None \<Rightarrow> None | Some d \<Rightarrow> parse_digits (10 * acc + d) cs)"

definition parse_decimal :: "string \<Rightarrow> jsnum" where
  "parse_decimal s = (case parse_digits 0 s of None \<Rightarrow> NaN | Some n \<Rightarrow> Num (of_nat n))"

definition example_builtins :: js_builtins where
  "example_builtins =
     \<lparr> numToString = (\<lambda>q. ''0''), parseNumber = parse_decimal,
       regexTest = (\<lambda>pattern flags text. None) \<rparr>"

section \<open>Cart item validation (src/src/utils/cartUtils.js)\<close>

datatype js_error = TypeError

record validation =
  isValid :: bool
  errors :: "string list"
  warnings :: "string list"

text \<open>
  \<^verbatim>\<open>validateCartItem\<close>: reading a property of \<^verbatim>\<open>null\<close> or \<^verbatim>\<open>undefined\<close> throws a
  TypeError; otherwise the four checks push their messages in order.
\<close>

definition validateCartItem :: "jsval \<Rightarrow> js_error + validation" where
  "validateCartItem item =
     (if item = JNull \<or> item = JUndefined then Inl TypeError
      else
        let errors1 =
              (if \<not> truthy (get_prop item ''id'') then [''Item ID is required''] else []);
            errors2 =
              (if \<not> truthy (get_prop item ''title'') \<or>
                  typeof (get_prop item ''title'') \<noteq> ''string''
               then errors1 @ [''Item title is required and must be a string'']
               else errors1);
            errors3 =
              (if typeof (get_prop item ''price'') \<noteq> ''number'' \<or>
                  num_less (as_number (get_prop item ''price'')) (Num 0)
               then errors2 @ [''Item price must be a non-negative number'']
               else errors2);
            errors4 =
              (if typeof (get_prop item ''quantity'') \<noteq> ''number'' \<or>
                  num_less_eq (as_number (get_prop item ''quantity'')) (Num 0)
               then errors3 @ [''Item quantity must be a positive number'']
               else errors3);
            warnings1 =
              (if truthy (get_prop item ''image'') \<and>
                  typeof (get_prop item ''image'') \<noteq> ''string''
               then [''Item image should be a string URL'']
               else [])
        in Inr \<lparr> isValid = (length errors4 = 0), errors = errors4, warnings = warnings1 \<rparr>)"

text \<open>Sample items for closed examples.\<close>

definition sample_item :: "jsval \<Rightarrow> jsval \<Rightarrow> jsval \<Rightarrow> jsval \<Rightarrow> jsval" where
  "sample_item i t p q = JObj [(''id'', i), (''title'', t), (''price'', p), (''quantity'', q)]"

section \<open>Filter engine (src/src/hooks/useFilterSort.js)\<close>

record priceRange =
  pr_min :: string
  pr_max :: string

text \<open>
  \<^verbatim>\<open>selectedCategories.includes(v)\<close> on an array of strings: only a string can be found.
\<close>

fun includes_category :: "string list \<Rightarrow> jsval \<Rightarrow> bool" where
  "includes_category cats (JStr s) = (s \<in> set cats)"
| "includes_category cats _ = False"

text \<open>The callback of \<^verbatim>\<open>data.filter\<close> in \<^verbatim>\<open>filteredData\<close>, split at its two comments.\<close>

definition category_passes :: "string list \<Rightarrow> jsval \<Rightarrow> bool" where
  "category_passes selectedCategories item =
     (if length selectedCategories > 0
      then (let itemCategory = opt_chain (opt_chain item ''category'') ''name''
            in \<not> (\<not> truthy itemCategory \<or> \<not> includes_category selectedCategories itemCategory))
      else True)"

definition price_passes :: "'b js_builtins_scheme \<Rightarrow> priceRange \<Rightarrow> jsval \<Rightarrow> bool" where
  "price_passes B bounds item =
     (let price = js_Number B (opt_chain item ''price'')
      in if \<not> isNaN price
         then (if pr_min bounds \<noteq> '''' \<and> num_less price (js_Number B (JStr (pr_min bounds)))
               then False
               else if pr_max bounds \<noteq> '''' \<and>
                       num_less (js_Number B (JStr (pr_max bounds))) price
               then False
               else True)
         else True)"

definition filteredData ::
  "'b js_builtins_scheme \<Rightarrow> jsval list \<Rightarrow> string list \<Rightarrow> priceRange \<Rightarrow> jsval list" where
  "filteredData B data selectedCategories bounds =
     (if length data = 0 then []
      else filter (\<lambda>item. if \<not> category_passes selectedCategories item then False
                           else if \<not> price_passes B bounds item then False
                           else True) data)"

text \<open>Sample product records for closed examples.\<close>

definition product :: "rat \<Rightarrow> string \<Rightarrow> string \<Rightarrow> jsval \<Rightarrow> jsval" where
  "product i t c p =
     JObj [(''id'', JNum (Num i)), (''title'', JStr t),
           (''category'', JObj [(''name'', JStr c)]), (''price'', p)]"

section \<open>Double-precision numbers\<close>

text \<open>
  The ranking computes with JavaScript numbers, which are IEEE-754 doubles. Every finite
  double is a whole multiple of \<open>2\<^sup>-\<^sup>1\<^sup>0\<^sup>7\<^sup>4\<close>, the smallest subnormal: \<open>DFin m\<close> is the
  double \<open>m \<sdot> 2\<^sup>-\<^sup>1\<^sup>0\<^sup>7\<^sup>4\<close>, \<open>DInf True\<close> is \<^verbatim>\<open>Infinity\<close> and \<open>DInf False\<close> is
  \<^verbatim>\<open>-Infinity\<close>. The sign of zero is not modelled: \<^verbatim>\<open>-0\<close> is \<open>DFin 0\<close>, and a division of a
  non-zero number by zero takes the sign of the dividend.
\<close>

datatype double = DNaN | DInf bool | DFin int

text \<open>The number of binary digits of a natural number.\<close>

fun bit_length :: "nat \<Rightarrow> nat" where
  "bit_length n = (if n = 0 then 0 else Suc (bit_length (n div 2)))"

declare bit_length.simps [simp del]

text \<open>
  Rounding to nearest, ties to even. \<open>round_mag p q\<close> rounds the quotient \<open>p / q\<close>,
  counted in units of \<open>2\<^sup>-\<^sup>1\<^sup>0\<^sup>7\<^sup>4\<close>, to 53 significant bits: below \<open>2\<^sup>5\<^sup>3\<close> units the
  spacing of the doubles is one unit (subnormals and the first normal binade), above it
  the spacing is \<open>2\<^sup>s\<^sup>h\<close> units, where \<open>sh\<close> is the bit length of the integer part less 53.
\<close>

definition round_mag :: "nat \<Rightarrow> nat \<Rightarrow> nat" where
  "round_mag p q =
     (let sh = bit_length (p div q) - 53;
          d = q * 2 ^ sh;
          n0 = p div d;
          r = p mod d;
          n = (if 2 * r < d then n0
               else if d < 2 * r then n0 + 1
               else if even n0 then n0 else n0 + 1)
      in n * 2 ^ sh)"

text \<open>The double nearest to \<open>p / q\<close> units for \<open>q > 0\<close>; a rounded magnitude of \<open>2\<^sup>1\<^sup>0\<^sup>2\<^sup>4\<close>
  (\<open>2\<^sup>2\<^sup>0\<^sup>9\<^sup>8\<close> units) or more overflows to an infinity.\<close>

definition round_quot :: "int \<Rightarrow> int \<Rightarrow> double" where
  "round_quot p q =
     (let m = int (round_mag (nat \<bar>p\<bar>) (nat q))
      in if 2 ^ 2098 \<le> m then DInf (0 \<le> p)
         else DFin (if p < 0 then - m else m))"

definition d_one :: double where
  "d_one = DFin (2 ^ 1074)"

definition d_two :: double where
  "d_two = DFin (2 ^ 1075)"

text \<open>The double of an integer, such as a string length or an index.\<close>

definition d_of_int :: "int \<Rightarrow> double" where
  "d_of_int i = round_quot (i * 2 ^ 1074) 1"

fun dneg :: "double \<Rightarrow> double" where
  "dneg DNaN = DNaN"
| "dneg (DInf s) = DInf (\<not> s)"
| "dneg (DFin a) = DFin (- a)"

fun dadd :: "double \<Rightarrow> double \<Rightarrow> double" where
  "dadd (DFin a) (DFin b) = round_quot (a + b) 1"
| "dadd (DInf s) (DInf t) = (if s = t then DInf s else DNaN)"
| "dadd (DInf s) (DFin b) = DInf s"
| "dadd (DFin a) (DInf t) = DInf t"
| "dadd DNaN y = DNaN"
| "dadd x DNaN = DNaN"

definition dsub :: "double \<Rightarrow> double \<Rightarrow> double" where
  "dsub x y = dadd x (dneg y)"

fun dmul :: "double \<Rightarrow> double \<Rightarrow> double" where
  "dmul (DFin a) (DFin b) = round_quot (a * b) (2 ^ 1074)"
| "dmul (DInf s) (DInf t) = DInf (s = t)"
| "dmul (DInf s) (DFin b) = (if b = 0 then DNaN else DInf (s = (0 < b)))"
| "dmul (DFin a) (DInf t) = (if a = 0 then DNaN else DInf (t = (0 < a)))"
| "dmul DNaN y = DNaN"
| "dmul x DNaN = DNaN"

fun ddiv :: "double \<Rightarrow> double \<Rightarrow> double" where
  "ddiv (DFin a) (DFin b) =
     (if b = 0 then (if a = 0 then DNaN else DInf (0 < a))
      else if 0 < b then round_quot (a * 2 ^ 1074) b
      else round_quot (- a * 2 ^ 1074) (- b))"
| "ddiv (DInf s) (DInf t) = DNaN"
| "ddiv (DInf s) (DFin b) = DInf (s = (0 \<le> b))"
| "ddiv (DFin a) (DInf t) = DFin 0"
| "ddiv DNaN y = DNaN"
| "ddiv x DNaN = DNaN"

text \<open>\<^verbatim>\<open>x > 0\<close>, \<^verbatim>\<open>x <= y\<close> (both false on \<^verbatim>\<open>NaN\<close>), and the values \<^verbatim>\<open>||\<close> skips.\<close>

fun dpos :: "double \<Rightarrow> bool" where
  "dpos (DFin a) = (0 < a)"
| "dpos (DInf s) = s"
| "dpos DNaN = False"

fun dle :: "double \<Rightarrow> double \<Rightarrow> bool" where
  "dle (DFin a) (DFin b) = (a \<le> b)"
| "dle (DInf s) (DInf t) = (t \<or> \<not> s)"
| "dle (DInf s) (DFin b) = (\<not> s)"
| "dle (DFin a) (DInf t) = t"
| "dle DNaN y = False"
| "dle x DNaN = False"

fun dfalsy :: "double \<Rightarrow> bool" where
  "dfalsy (DFin a) = (a = 0)"
| "dfalsy (DInf s) = False"
| "dfalsy DNaN = True"

text \<open>
  \<^verbatim>\<open>Array.prototype.sort\<close> with a comparison function is stable. For a comparison whose
  sign orders the elements consistently every stable sort gives the same array: the
  insertion sort that moves \<open>x\<close> behind \<open>y\<close> exactly when \<^verbatim>\<open>compareFn(x, y) > 0\<close>.
\<close>

fun insert_by :: "('a \<Rightarrow> 'a \<Rightarrow> double) \<Rightarrow> 'a \<Rightarrow> 'a list \<Rightarrow> 'a list" where
  "insert_by compareFn x [] = [x]"
| "insert_by compareFn x (y # ys) =
     (if dpos (compareFn x y) then y # insert_by compareFn x ys else x # y # ys)"

definition sort_by :: "('a \<Rightarrow> 'a \<Rightarrow> double) \<Rightarrow> 'a list \<Rightarrow> 'a list" where
  "sort_by compareFn xs = foldr (insert_by compareFn) xs []"

text \<open>Doubles that are at least \<open>2\<^sup>j\<close> units (\<open>2\<^sup>j\<^sup>-\<^sup>1\<^sup>0\<^sup>7\<^sup>4\<close>), and doubles that are at most 0.\<close>

definition at_least :: "nat \<Rightarrow> double \<Rightarrow> bool" where
  "at_least j d = (case d of DFin m \<Rightarrow> 2 ^ j \<le> m | DInf s \<Rightarrow> s | DNaN \<Rightarrow> False)"

definition at_most_zero :: "double \<Rightarrow> bool" where
  "at_most_zero d = (case d of DFin m \<Rightarrow> m \<le> 0 | DInf s \<Rightarrow> \<not> s | DNaN \<Rightarrow> False)"

section \<open>Search engine (src/src/utils/price-formatter.js)\<close>

text \<open>A key-map entry points at a field by a dotted string or by an array of segments.\<close>

datatype js_path = PathStr string | PathArr "string list"

text \<open>\<^verbatim>\<open>path.split('.')\<close>: the empty string splits into one empty segment.\<close>

fun split_on :: "char \<Rightarrow> string \<Rightarrow> string list" where
  "split_on sep [] = [[]]"
| "split_on sep (c # cs) =
     (if c = sep then [] # split_on sep cs
      else (case split_on sep cs of
              [] \<Rightarrow> [[c]]
            | w # ws \<Rightarrow> (c # w) # ws))"

fun path_truthy :: "js_path \<Rightarrow> bool" where
  "path_truthy (PathStr s) = (s \<noteq> [])"
| "path_truthy (PathArr ks) = True"

fun pathArray :: "js_path \<Rightarrow> string list" where
  "pathArray (PathArr ks) = ks"
| "pathArray (PathStr s) = split_on CHR ''.'' s"

definition getNestedValue :: "jsval \<Rightarrow> js_path \<Rightarrow> jsval" where
  "getNestedValue obj path =
     (if \<not> truthy obj \<or> \<not> path_truthy path then JUndefined
      else foldl (\<lambda>current key.
                    if current = JNull \<or> current = JUndefined then JUndefined
                    else get_prop current key)
                 obj (pathArray path))"

text \<open>
  The options object, with the fields the search functions destructure. \<^verbatim>\<open>weights\<close> holds
  the own properties of the weights object, which are numbers: \<open>weights opts k = None\<close> when
  the object has no own property \<open>k\<close>.
\<close>

record SearchOptions =
  keys :: "(string \<times> js_path) list"
  caseSensitive :: bool
  strategy :: string
  minScore :: rat
  regexFlags :: string
  weights :: "string \<Rightarrow> double option"

definition default_options :: SearchOptions where
  "default_options =
     \<lparr> keys = [], caseSensitive = False, strategy = ''contains'', minScore = 3 / 10,
       regexFlags = ''gi'', weights = (\<lambda>k. None) \<rparr>"

text \<open>\<^verbatim>\<open>caseSensitive ? s : s.toLowerCase()\<close>.\<close>

definition normalize_case :: "bool \<Rightarrow> string \<Rightarrow> string" where
  "normalize_case cs s = (if cs then s else toLowerCase s)"

text \<open>
  String built-ins: \<^verbatim>\<open>includes\<close>, \<^verbatim>\<open>startsWith\<close> and \<^verbatim>\<open>endsWith\<close> are the library's
  \<open>sublist\<close>, \<open>prefix\<close> and \<open>suffix\<close>; \<^verbatim>\<open>indexOf\<close> scans for the first position where
  the query is a prefix of the rest and returns \<open>-1\<close> when there is none.
\<close>

definition js_includes :: "string \<Rightarrow> string \<Rightarrow> bool" where
  "js_includes text q \<longleftrightarrow> sublist q text"

fun js_indexOf :: "string \<Rightarrow> string \<Rightarrow> int" where
  "js_indexOf [] q = (if q = [] then 0 else - 1)"
| "js_indexOf (c # cs) q =
     (if prefix q (c # cs) then 0
      else (let i = js_indexOf cs q in if i = - 1 then - 1 else i + 1))"

text \<open>
  \<^verbatim>\<open>fuzzyMatch\<close>: the \<^verbatim>\<open>for\<close> loop walks the text while \<^verbatim>\<open>patternIndex\<close> is inside the
  pattern; it returns the score and the pattern index it stopped with.
\<close>

fun fuzzyLoop :: "string \<Rightarrow> string \<Rightarrow> nat \<Rightarrow> nat \<Rightarrow> nat \<times> nat" where
  "fuzzyLoop [] pattern patternIndex score = (score, patternIndex)"
| "fuzzyLoop (c # rest) pattern patternIndex score =
     (if patternIndex < length pattern
      then (if c = pattern ! patternIndex
            then fuzzyLoop rest pattern (patternIndex + 1) (score + 1)
            else fuzzyLoop rest pattern patternIndex score)
      else (score, patternIndex))"

definition fuzzyMatch :: "string \<Rightarrow> string \<Rightarrow> rat" where
  "fuzzyMatch text pattern =
     (if text = [] \<or> pattern = [] then 0
      else (case fuzzyLoop text pattern 0 0 of
              (score, patternIndex) \<Rightarrow>
                if patternIndex = length pattern
                then of_nat score / of_nat (length pattern)
                else 0))"

text \<open>\<^verbatim>\<open>advancedSearch\<close>: the callback of \<^verbatim>\<open>Object.entries(keys).some\<close>, then the filter.\<close>

definition strategy_matches ::
  "'b js_builtins_scheme \<Rightarrow> SearchOptions \<Rightarrow> string \<Rightarrow> jsval \<Rightarrow> string \<times> js_path \<Rightarrow> bool" where
  "strategy_matches B opts normalizedQuery item entry =
     (case entry of (searchKey, dataPath) \<Rightarrow>
       (let v = getNestedValue item dataPath
        in if v = JNull \<or> v = JUndefined then False
           else
             (let stringValue = js_String B v;
                  normalizedValue = normalize_case (caseSensitive opts) stringValue
              in if strategy opts = ''startsWith'' then prefix normalizedQuery normalizedValue
                 else if strategy opts = ''endsWith'' then suffix normalizedQuery normalizedValue
                 else if strategy opts = ''fuzzy''
                   then minScore opts \<le> fuzzyMatch normalizedValue normalizedQuery
                 else if strategy opts = ''regex''
                   then (case regexTest B normalizedQuery (regexFlags opts) normalizedValue of
                           Some b \<Rightarrow> b
                         | None \<Rightarrow> False)
                 else js_includes normalizedValue normalizedQuery)))"

definition advancedSearch ::
  "'b js_builtins_scheme \<Rightarrow> jsval list \<Rightarrow> string \<Rightarrow> SearchOptions \<Rightarrow> jsval list" where
  "advancedSearch B data query opts =
     (if query = [] then data
      else (let normalizedQuery = normalize_case (caseSensitive opts) query
            in filter (\<lambda>item. list_ex (strategy_matches B opts normalizedQuery item) (keys opts))
                 data))"

text \<open>
  \<^verbatim>\<open>calculateMatchScore\<close>, in double precision as the code computes it: the index and the
  two lengths are converted exactly (a string is shorter than \<open>2\<^sup>5\<^sup>3\<close>), each of the two
  quotients, the difference, the sum and the halving round to the nearest double.
\<close>

definition calculateMatchScore :: "string \<Rightarrow> string \<Rightarrow> double" where
  "calculateMatchScore text q =
     (let index = js_indexOf text q
      in if index = - 1 then DFin 0
         else (let positionScore =
                     dsub d_one (ddiv (d_of_int index) (d_of_int (int (length text))));
                   lengthScore = ddiv (d_of_int (int (length q))) (d_of_int (int (length text)))
               in ddiv (dadd positionScore lengthScore) d_two))"

text \<open>
  \<^verbatim>\<open>weights[searchKey] || defaultWeight\<close>, as the factor of the product
  \<^verbatim>\<open>score * weight\<close>. An own weight that is \<open>0\<close> or \<^verbatim>\<open>NaN\<close> is replaced by 1, and so is a
  missing one, unless the search key names a member that the weights object inherits from
  \<^verbatim>\<open>Object.prototype\<close>: the lookup then yields a function (for \<^verbatim>\<open>__proto__\<close> the prototype
  object), which is truthy, and the product with it is \<^verbatim>\<open>NaN\<close>.
\<close>

definition object_prototype_members :: "string list" where
  "object_prototype_members =
     [''constructor'', ''hasOwnProperty'', ''isPrototypeOf'', ''propertyIsEnumerable'',
      ''toLocaleString'', ''toString'', ''valueOf'', ''__proto__'',
      ''__defineGetter__'', ''__defineSetter__'', ''__lookupGetter__'', ''__lookupSetter__'']"

definition weight_factor :: "SearchOptions \<Rightarrow> string \<Rightarrow> double" where
  "weight_factor opts searchKey =
     (case weights opts searchKey of
        Some w \<Rightarrow> if dfalsy w then d_one else w
      | None \<Rightarrow> if searchKey \<in> set object_prototype_members then DNaN else d_one)"

record ranked =
  r_item :: jsval
  r_score :: double
  r_matchCount :: nat

text \<open>One round of the \<^verbatim>\<open>forEach\<close> over the key-map: the running total and match count.
  The count stays below \<open>2\<^sup>3\<^sup>2\<close>, the bound on the length of the array of entries, so it is
  a natural number here and is converted where it divides the total.\<close>

definition rank_step ::
  "'b js_builtins_scheme \<Rightarrow> SearchOptions \<Rightarrow> string \<Rightarrow> jsval \<Rightarrow> double \<times> nat \<Rightarrow>
   string \<times> js_path \<Rightarrow> double \<times> nat" where
  "rank_step B opts normalizedQuery item acc entry =
     (case (acc, entry) of ((totalScore, matchCount), (searchKey, dataPath)) \<Rightarrow>
       (let v = getNestedValue item dataPath
        in if v \<noteq> JNull \<and> v \<noteq> JUndefined
           then (let stringValue = js_String B v;
                     normalizedValue = normalize_case (caseSensitive opts) stringValue
                 in if js_includes normalizedValue normalizedQuery
                    then (let weight = weight_factor opts searchKey;
                              score = calculateMatchScore normalizedValue normalizedQuery
                          in (dadd totalScore (dmul score weight), matchCount + 1))
                    else (totalScore, matchCount))
           else (totalScore, matchCount)))"

definition rank_item ::
  "'b js_builtins_scheme \<Rightarrow> SearchOptions \<Rightarrow> string \<Rightarrow> jsval \<Rightarrow> ranked" where
  "rank_item B opts normalizedQuery item =
     (case foldl (rank_step B opts normalizedQuery item) (DFin 0, 0) (keys opts) of
        (totalScore, matchCount) \<Rightarrow>
          \<lparr> r_item = item,
            r_score = (if matchCount > 0 then ddiv totalScore (d_of_int (int matchCount))
                       else DFin 0),
            r_matchCount = matchCount \<rparr>)"

text \<open>\<^verbatim>\<open>.filter(result => result.score > 0)\<close>, then
  \<^verbatim>\<open>results.sort((a, b) => b.score - a.score)\<close>, then the items of the results.\<close>

definition rankedSearch ::
  "'b js_builtins_scheme \<Rightarrow> jsval list \<Rightarrow> string \<Rightarrow> SearchOptions \<Rightarrow> jsval list" where
  "rankedSearch B data query opts =
     (if query = [] then data
      else (let normalizedQuery = normalize_case (caseSensitive opts) query;
                results = filter (\<lambda>result. dpos (r_score result))
                            (map (rank_item B opts normalizedQuery) data);
                sorted_results =
                  sort_by (\<lambda>a b. dsub (r_score b) (r_score a)) results
            in map r_item sorted_results))"

text \<open>The overall score the code gives a record.\<close>

definition ranked_score ::
  "'b js_builtins_scheme \<Rightarrow> SearchOptions \<Rightarrow> string \<Rightarrow> jsval \<Rightarrow> double" where
  "ranked_score B opts query item =
     r_score (rank_item B opts (normalize_case (caseSensitive opts) query) item)"

text \<open>
  The ranking as the specification words it. The normalized text a key resolves to
  (nothing for \<^verbatim>\<open>null\<close> and \<^verbatim>\<open>undefined\<close>); the keys whose text contains the normalized
  query; the score of one key,
  \<open>(1 - firstMatchIndex / valueLength + queryLength / valueLength) / 2\<close> times the key's
  weight (1 when it has none); and the overall score, their average. The arithmetic is
  that of doubles, left to right.
\<close>

definition resolved_text ::
  "'b js_builtins_scheme \<Rightarrow> bool \<Rightarrow> jsval \<Rightarrow> js_path \<Rightarrow> string option" where
  "resolved_text B cs item path =
     (let v = getNestedValue item path
      in if v = JNull \<or> v = JUndefined then None else Some (normalize_case cs (js_String B v)))"

definition matching_keys ::
  "'b js_builtins_scheme \<Rightarrow> SearchOptions \<Rightarrow> string \<Rightarrow> jsval \<Rightarrow> (string \<times> string) list" where
  "matching_keys B opts nq item =
     concat (map (\<lambda>(k, path). case resolved_text B (caseSensitive opts) item path of
                                  None \<Rightarrow> []
                                | Some text \<Rightarrow> if sublist nq text then [(k, text)] else [])
                 (keys opts))"

definition spec_key_score :: "SearchOptions \<Rightarrow> string \<Rightarrow> string \<times> string \<Rightarrow> double" where
  "spec_key_score opts nq kt =
     (case kt of (k, text) \<Rightarrow>
        dmul (ddiv (dadd (dsub d_one (ddiv (d_of_int (js_indexOf text nq))
                                           (d_of_int (int (length text)))))
                         (ddiv (d_of_int (int (length nq))) (d_of_int (int (length text)))))
                   d_two)
             (case weights opts k of Some w \<Rightarrow> w | None \<Rightarrow> d_one))"

definition spec_score ::
  "'b js_builtins_scheme \<Rightarrow> SearchOptions \<Rightarrow> string \<Rightarrow> jsval \<Rightarrow> double" where
  "spec_score B opts nq item =
     ddiv (foldl dadd (DFin 0) (map (spec_key_score opts nq) (matching_keys B opts nq item)))
          (d_of_int (int (length (matching_keys B opts nq item))))"

text \<open>
  Options and data on which the code's score is the specification's: every search key
  has an own weight of at least \<open>2\<^sup>-\<^sup>9\<^sup>0\<^sup>0\<close> (\<open>2\<^sup>1\<^sup>7\<^sup>4\<close> units; \<^verbatim>\<open>Infinity\<close> is allowed), or has
  none and is not the name of a member of \<^verbatim>\<open>Object.prototype\<close>; and, as on every
  JavaScript engine, the key-map has fewer than \<open>2\<^sup>5\<^sup>3\<close> entries and the matching texts are
  shorter than \<open>2\<^sup>5\<^sup>3\<close>.
\<close>

definition sane_weight :: "SearchOptions \<Rightarrow> string \<times> js_path \<Rightarrow> bool" where
  "sane_weight opts entry =
     (case weights opts (fst entry) of
        Some w \<Rightarrow> at_least 174 w
      | None \<Rightarrow> fst entry \<notin> set object_prototype_members)"

definition short_texts ::
  "'b js_builtins_scheme \<Rightarrow> SearchOptions \<Rightarrow> string \<Rightarrow> jsval \<Rightarrow> bool" where
  "short_texts B opts nq item =
     list_all (\<lambda>kt. length (snd kt) < 2 ^ 53) (matching_keys B opts nq item)"

definition sane_ranking ::
  "'b js_builtins_scheme \<Rightarrow> SearchOptions \<Rightarrow> string \<Rightarrow> jsval list \<Rightarrow> bool" where
  "sane_ranking B opts query data \<longleftrightarrow>
     list_all (sane_weight opts) (keys opts) \<and>
     length (keys opts) < 2 ^ 53 \<and>
     list_all (short_texts B opts (normalize_case (caseSensitive opts) query)) data"

text \<open>The sort key of a positive score: descending, \<^verbatim>\<open>Infinity\<close> first.\<close>

definition dkey :: "double \<Rightarrow> int option" where
  "dkey d = (case d of DFin m \<Rightarrow> Some (- m) | DInf s \<Rightarrow> None | DNaN \<Rightarrow> Some 0)"

text \<open>Sample options and records for closed examples: the title is searched with weight 2,
  and two records share a title. In the second options the weight of the title is -1.\<close>

definition sample_options :: SearchOptions where
  "sample_options =
     default_options\<lparr> keys := [(''title'', PathStr ''title'')],
                      weights := (\<lambda>k. if k = ''title'' then Some d_two else None) \<rparr>"

definition negative_weight_options :: SearchOptions where
  "negative_weight_options =
     default_options\<lparr> keys := [(''title'', PathStr ''title'')],
                      weights := (\<lambda>k. if k = ''title'' then Some (dneg d_one) else None) \<rparr>"

definition sample_data :: "jsval list" where
  "sample_data =
     [product 1 ''Laptop'' ''Electronics'' (JNum (Num 999)),
      product 2 ''Phone'' ''Electronics'' (JNum (Num 599)),
      product 3 ''TV'' ''Electronics'' (JNum (Num 300)),
      product 4 ''Book'' ''Books'' (JNum (Num 19)),
      product 5 ''Phone'' ''Electronics'' (JNum (Num 650))]"

section \<open>Search with highlighting, on a store of objects (src/src/utils/price-formatter.js)\<close>

text \<open>
  \<^verbatim>\<open>searchWithHighlight\<close> copies each record with a spread and then writes into the copy,
  so what it does to the input depends on which objects are shared. Here objects live in
  a store at addresses; a value is a primitive or a reference to an object, and a record
  of the input array is a reference. A fresh object takes the next free address.
\<close>

datatype hval =
    HUndefined
  | HNull
  | HBool bool
  | HNum jsnum
  | HStr string
  | HRef nat

record heap =
  objs :: "nat \<Rightarrow> (string \<times> hval) list option"
  next_free :: nat

fun h_truthy :: "hval \<Rightarrow> bool" where
  "h_truthy HUndefined = False"
| "h_truthy HNull = False"
| "h_truthy (HBool b) = b"
| "h_truthy (HNum NaN) = False"
| "h_truthy (HNum (Num q)) = (q \<noteq> 0)"
| "h_truthy (HStr s) = (s \<noteq> [])"
| "h_truthy (HRef a) = True"

fun h_String :: "'b js_builtins_scheme \<Rightarrow> hval \<Rightarrow> string" where
  "h_String B HUndefined = ''undefined''"
| "h_String B HNull = ''null''"
| "h_String B (HBool b) = (if b then ''true'' else ''false'')"
| "h_String B (HNum NaN) = ''NaN''"
| "h_String B (HNum (Num q)) = numToString B q"
| "h_String B (HStr s) = s"
| "h_String B (HRef a) = ''[object Object]''"

text \<open>The own properties of the object a value refers to; none for a primitive (the
  characters a string spreads into are not modelled).\<close>

fun props_of :: "heap \<Rightarrow> hval \<Rightarrow> (string \<times> hval) list" where
  "props_of h (HRef a) = (case objs h a of Some ps \<Rightarrow> ps | None \<Rightarrow> [])"
| "props_of h _ = []"

definition h_get_prop :: "heap \<Rightarrow> hval \<Rightarrow> string \<Rightarrow> hval" where
  "h_get_prop h v key = (case map_of (props_of h v) key of Some x \<Rightarrow> x | None \<Rightarrow> HUndefined)"

text \<open>\<^verbatim>\<open>obj[key] = v\<close>: an existing property keeps its place, a new one is appended.\<close>

fun upd_prop :: "string \<Rightarrow> hval \<Rightarrow> (string \<times> hval) list \<Rightarrow> (string \<times> hval) list" where
  "upd_prop key v [] = [(key, v)]"
| "upd_prop key v ((k, x) # ps) =
     (if k = key then (k, v) # ps else (k, x) # upd_prop key v ps)"

definition h_set_prop :: "heap \<Rightarrow> nat \<Rightarrow> string \<Rightarrow> hval \<Rightarrow> heap" where
  "h_set_prop h a key v =
     h\<lparr> objs := (objs h)(a \<mapsto> upd_prop key v (props_of h (HRef a))) \<rparr>"

text \<open>A new object with the given properties: its address and the extended store.\<close>

definition alloc :: "heap \<Rightarrow> (string \<times> hval) list \<Rightarrow> nat \<times> heap" where
  "alloc h ps =
     (next_free h, h\<lparr> objs := (objs h)(next_free h \<mapsto> ps), next_free := Suc (next_free h) \<rparr>)"

definition h_getNestedValue :: "heap \<Rightarrow> hval \<Rightarrow> js_path \<Rightarrow> hval" where
  "h_getNestedValue h obj path =
     (if \<not> h_truthy obj \<or> \<not> path_truthy path then HUndefined
      else foldl (\<lambda>current key.
                    if current = HNull \<or> current = HUndefined then HUndefined
                    else h_get_prop h current key)
                 obj (pathArray path))"

text \<open>
  \<^verbatim>\<open>searchData\<close> with the options \<^verbatim>\<open>searchWithHighlight\<close> passes on (\<^verbatim>\<open>keys\<close> and
  \<^verbatim>\<open>caseSensitive\<close>; \<^verbatim>\<open>exactMatch\<close> and \<^verbatim>\<open>customMatcher\<close> keep their defaults). It reads
  the store and returns a sub-array of the input.
\<close>

definition h_searchData ::
  "'b js_builtins_scheme \<Rightarrow> heap \<Rightarrow> hval list \<Rightarrow> string \<Rightarrow> (string \<times> js_path) list \<Rightarrow>
   bool \<Rightarrow> hval list" where
  "h_searchData B h data query ks cs =
     (if query = [] then data
      else if length ks = 0 then data
      else (let normalizedQuery = normalize_case cs query
            in filter (\<lambda>item.
                 list_ex (\<lambda>(searchKey, dataPath).
                            (let v = h_getNestedValue h item dataPath
                             in if v = HNull \<or> v = HUndefined then False
                                else (let stringValue = h_String B v;
                                          normalizedValue = normalize_case cs stringValue
                                      in js_includes normalizedValue normalizedQuery)))
                         ks)
                 data))"

text \<open>
  \<^verbatim>\<open>stringValue.replace(regex, '<span class="...">$1</span>')\<close> with the query escaped
  and the flags \<^verbatim>\<open>g\<close> or \<^verbatim>\<open>gi\<close>: every occurrence of the query, found from left to right
  without overlap and compared after \<open>normalize_case\<close>, is wrapped. \<open>skip\<close> counts the
  characters of the current match still to pass over. An empty query matches at every
  position.
\<close>

definition span_open :: "string \<Rightarrow> string" where
  \<open>span_open highlightClass = ''<span class="'' @ highlightClass @ ''">''\<close>

definition span_close :: string where
  "span_close = ''</span>''"

fun highlight_loop :: "string \<Rightarrow> bool \<Rightarrow> string \<Rightarrow> nat \<Rightarrow> string \<Rightarrow> string" where
  "highlight_loop cls cs q skip [] =
     (if q = [] then span_open cls @ span_close else [])"
| "highlight_loop cls cs q skip (c # rest) =
     (if q = [] then span_open cls @ span_close @ c # highlight_loop cls cs q 0 rest
      else if skip > 0 then
        (if skip = 1 then c # span_close @ highlight_loop cls cs q 0 rest
         else c # highlight_loop cls cs q (skip - 1) rest)
      else if prefix (normalize_case cs q) (normalize_case cs (c # rest)) then
        (if length q = 1 then span_open cls @ c # span_close @ highlight_loop cls cs q 0 rest
         else span_open cls @ c # highlight_loop cls cs q (length q - 1) rest)
      else c # highlight_loop cls cs q 0 rest)"

definition highlight :: "string \<Rightarrow> bool \<Rightarrow> string \<Rightarrow> string \<Rightarrow> string" where
  "highlight cls cs q stringValue = highlight_loop cls cs q 0 stringValue"

text \<open>
  \<^verbatim>\<open>setNestedValue\<close>: \<^verbatim>\<open>pop\<close> takes the last segment; the \<^verbatim>\<open>reduce\<close> walks the others
  from \<^verbatim>\<open>obj\<close>. A step whose value is falsy or not of type object (anything but a
  reference) is replaced by a fresh empty object; the last segment is written into the
  object reached.
\<close>

definition set_step :: "heap \<times> nat \<Rightarrow> string \<Rightarrow> heap \<times> nat" where
  "set_step hc key =
     (case hc of (h, current) \<Rightarrow>
        (case h_get_prop h (HRef current) key of
           HRef a \<Rightarrow> (h, a)
         | _ \<Rightarrow> (case alloc h [] of (a, h') \<Rightarrow> (h_set_prop h' current key (HRef a), a))))"

text \<open>
  A path given as an array is the caller's array itself, not a copy, so \<^verbatim>\<open>pop\<close> removes
  its last segment for good: \<open>path_after_pop\<close> is the path the key-map holds after the
  call. A dotted string is split into a fresh array and stays as it is. The arrays of
  different keys are taken to be different objects.
\<close>

fun path_after_pop :: "js_path \<Rightarrow> js_path" where
  "path_after_pop (PathStr s) = PathStr s"
| "path_after_pop (PathArr ks) = PathArr (butlast ks)"

definition setNestedValue :: "heap \<Rightarrow> nat \<Rightarrow> js_path \<Rightarrow> hval \<Rightarrow> heap \<times> js_path" where
  "setNestedValue h obj path v =
     (let segments = pathArray path;
          lastKey = (if segments = [] then ''undefined'' else last segments)
      in case foldl set_step (h, obj) (butlast segments) of
           (h', target) \<Rightarrow> (h_set_prop h' target lastKey v, path_after_pop path))"

text \<open>
  \<^verbatim>\<open>searchWithHighlight\<close>: for each result, \<^verbatim>\<open>{ ...item }\<close> allocates a copy holding the
  same property values (so the same references to nested objects); each key whose value
  matches is read from \<^verbatim>\<open>item\<close> and written, highlighted, through the copy. The store
  and the key-map are threaded through the keys and the results: \<open>highlight_key\<close> returns
  the store and the entry as the call leaves them.
\<close>

definition highlight_key ::
  "'b js_builtins_scheme \<Rightarrow> string \<Rightarrow> bool \<Rightarrow> string \<Rightarrow> hval \<Rightarrow> nat \<Rightarrow> heap \<Rightarrow>
   string \<times> js_path \<Rightarrow> heap \<times> (string \<times> js_path)" where
  "highlight_key B cls cs query item highlightedItem h entry =
     (case entry of (searchKey, dataPath) \<Rightarrow>
        (let v = h_getNestedValue h item dataPath
         in if v \<noteq> HNull \<and> v \<noteq> HUndefined
            then (let stringValue = h_String B v;
                      normalizedValue = normalize_case cs stringValue;
                      normalizedQuery = normalize_case cs query
                  in if js_includes normalizedValue normalizedQuery
                     then (case setNestedValue h highlightedItem dataPath
                                  (HStr (highlight cls cs query stringValue)) of
                             (h', dataPath') \<Rightarrow> (h', (searchKey, dataPath')))
                     else (h, entry))
            else (h, entry)))"

fun highlight_keys ::
  "'b js_builtins_scheme \<Rightarrow> string \<Rightarrow> bool \<Rightarrow> string \<Rightarrow> hval \<Rightarrow> nat \<Rightarrow> heap \<Rightarrow>
   (string \<times> js_path) list \<Rightarrow> heap \<times> (string \<times> js_path) list" where
  "highlight_keys B cls cs query item highlightedItem h [] = (h, [])"
| "highlight_keys B cls cs query item highlightedItem h (entry # entries) =
     (case highlight_key B cls cs query item highlightedItem h entry of
        (h1, entry') \<Rightarrow>
          (case highlight_keys B cls cs query item highlightedItem h1 entries of
             (h2, entries') \<Rightarrow> (h2, entry' # entries')))"

definition highlight_item ::
  "'b js_builtins_scheme \<Rightarrow> string \<Rightarrow> bool \<Rightarrow> string \<Rightarrow>
   hval list \<times> heap \<times> (string \<times> js_path) list \<Rightarrow> hval \<Rightarrow>
   hval list \<times> heap \<times> (string \<times> js_path) list" where
  "highlight_item B cls cs query acc item =
     (case acc of (out, h, ks) \<Rightarrow>
        (case alloc h (props_of h item) of
           (highlightedItem, h1) \<Rightarrow>
             (case highlight_keys B cls cs query item highlightedItem h1 ks of
                (h2, ks') \<Rightarrow> (out @ [HRef highlightedItem], h2, ks'))))"

text \<open>The results, the store and the key-map after the call; \<open>searchWithHighlight\<close> is
  the array returned together with the store.\<close>

definition highlight_results ::
  "'b js_builtins_scheme \<Rightarrow> heap \<Rightarrow> hval list \<Rightarrow> string \<Rightarrow> (string \<times> js_path) list \<Rightarrow>
   string \<Rightarrow> bool \<Rightarrow> hval list \<times> heap \<times> (string \<times> js_path) list" where
  "highlight_results B h data query ks highlightClass cs =
     (let results = h_searchData B h data query ks cs
      in foldl (highlight_item B highlightClass cs query) ([], h, ks) results)"

definition searchWithHighlight ::
  "'b js_builtins_scheme \<Rightarrow> heap \<Rightarrow> hval list \<Rightarrow> string \<Rightarrow> (string \<times> js_path) list \<Rightarrow>
   string \<Rightarrow> bool \<Rightarrow> hval list \<times> heap" where
  "searchWithHighlight B h data query ks highlightClass cs =
     (case highlight_results B h data query ks highlightClass cs of
        (out, h', ks') \<Rightarrow> (out, h'))"

text \<open>A store for closed examples: record 0 is a laptop whose category is object 1.\<close>

definition sample_heap :: heap where
  "sample_heap =
     \<lparr> objs = (\<lambda>a. if a = 0 then Some [(''id'', HNum (Num 1)), (''title'', HStr ''Laptop''),
                                        (''category'', HRef 1)]
                     else if a = 1 then Some [(''name'', HStr ''Electronics'')]
                     else None),
       next_free = 2 \<rparr>"

section \<open>Properties of the cart store\<close>







lemma findIndex_None_iff: "findIndex P xs = None \<longleftrightarrow> (\<forall>x\<in>set xs. \<not> P x)"
  by (induction xs) (auto split: option.splits)

text \<open>
  C10. When the cart has no line with the identifier of \<open>item\<close> and \<open>n \<le> 0\<close>,
  \<open>addItem item n\<close> appends one new line whose quantity is exactly \<open>n\<close>: the
  resulting cart holds a line with a non-positive quantity.
\<close>

theorem C10_addItem_nonpositive_new_line:
  assumes "\<forall>l\<in>set (items s). item_id l \<noteq> item_id item" and "n \<le> 0"
  shows "items (addItem item n s) = items s @ [item\<lparr>quantity := n\<rparr>] \<and>
         quantity (last (items (addItem item n s))) = n \<and>
         (\<exists>l\<in>set (items (addItem item n s)). item_id l = item_id item \<and> quantity l \<le> 0)"
proof -
  from assms(1) have "findIndex (\<lambda>cartItem. item_id cartItem = item_id item) (items s) = None"
    by (simp add: findIndex_None_iff)
  then have "items (addItem item n s) = items s @ [item\<lparr>quantity := n\<rparr>]"
    by (simp add: addItem_def calculateTotals_def)
  with assms(2) show ?thesis by simp
qed

text \<open>C10 at a cart holding one other line: adding identifier 2 with quantity \<open>-1\<close>.\<close>

theorem C10_witness:
  "list_all (\<lambda>l. item_id l \<noteq> item_id (demo_item 2 5 1))
     (items (run_cart [AddItem (demo_item 1 10 1) 2])) \<and>
   (-1::rat) \<le> 0 \<and>
   items (addItem (demo_item 2 5 1) (-1) (run_cart [AddItem (demo_item 1 10 1) 2])) =
     [demo_item 1 10 2, demo_item 2 5 (-1)]"
proof -
  have s: "items (run_cart [AddItem (demo_item 1 10 1) 2]) = [demo_item 1 10 2]"
    by (simp add: run_cart_def addItem_def initialState_def calculateTotals_def demo_item_def)
  have h1: "\<forall>l\<in>set (items (run_cart [AddItem (demo_item 1 10 1) 2])).
      item_id l \<noteq> item_id (demo_item 2 5 1)"
    unfolding s by (simp add: demo_item_def)
  have h2: "(-1::rat) \<le> 0" by simp
  from C10_addItem_nonpositive_new_line [OF h1 h2]
  have "items (addItem (demo_item 2 5 1) (-1) (run_cart [AddItem (demo_item 1 10 1) 2])) =
      items (run_cart [AddItem (demo_item 1 10 1) 2]) @ [(demo_item 2 5 1)\<lparr>quantity := -1\<rparr>]"
    by blast
  then have "items (addItem (demo_item 2 5 1) (-1) (run_cart [AddItem (demo_item 1 10 1) 2])) =
      [demo_item 1 10 2, demo_item 2 5 (-1)]"
    unfolding s by (simp add: demo_item_def)
  with h1 show ?thesis by (simp add: list_all_iff)
qed














section \<open>Properties of the wishlist store\<close>


lemma find_Some_holds: "List.find P xs = Some y \<Longrightarrow> P y"
  by (induction xs) (auto split: if_splits)

lemma wl_consistent_calculateTotals: "wl_consistent (wl_calculateTotals its)"
  by (simp add: wl_consistent_def wl_calculateTotals_def)

lemma wl_consistent_apply: "wl_consistent s \<Longrightarrow> wl_consistent (apply_wishlist_op op s)"
  by (cases op)
     (simp_all add: wl_addItem_def wl_removeItem_def toggleItem_def clearWishlist_def
        moveToCart_def wl_consistent_calculateTotals wl_initialState_def wl_consistent_def [of "\<lparr>wl_items = [], wl_totalItems = 0, wl_isEmpty = True\<rparr>"]
        split: option.splits)

lemma wl_consistent_foldl:
  "wl_consistent s \<Longrightarrow> wl_consistent (foldl (\<lambda>s op. apply_wishlist_op op s) s ops)"
  by (induction ops arbitrary: s) (simp_all add: wl_consistent_apply)

lemma wl_consistent_run: "run_wishlist ops = wl_calculateTotals (wl_items (run_wishlist ops))"
proof -
  have "wl_consistent (wl_initialState :: ('a, 'b) WishlistState)"
    by (simp add: wl_initialState_def wl_consistent_def)
  then have "wl_consistent (run_wishlist ops)"
    unfolding run_wishlist_def by (rule wl_consistent_foldl)
  then show ?thesis
    by (simp add: wl_consistent_def wl_calculateTotals_def)
qed

text \<open>
  C6 (amended). For every wishlist state reached by the store's operations and every item
  \<open>x\<close> whose identifier is not in the wishlist, toggling \<open>x\<close> twice reports
  added = true, then added = false, and gives back the original state.
\<close>

theorem C6_toggle_twice_absent:
  assumes "\<forall>w\<in>set (wl_items (run_wishlist ops)). wl_id w \<noteq> wl_id x"
  shows "fst (toggleItem x (run_wishlist ops)) = True \<and>
         fst (toggleItem x (snd (toggleItem x (run_wishlist ops)))) = False \<and>
         snd (toggleItem x (snd (toggleItem x (run_wishlist ops)))) = run_wishlist ops"
proof -
  let ?s = "run_wishlist ops"
  from assms have notin: "\<not> isItemInWishlist (wl_id x) ?s"
    by (simp add: isItemInWishlist_def list_ex_iff)
  from assms have nofind: "List.find (\<lambda>w. wl_id w = wl_id x) (wl_items ?s) = None"
    by (simp add: find_None_iff)
  have first: "toggleItem x ?s = (True, wl_calculateTotals (wl_items ?s @ [x]))"
    using notin nofind by (simp add: toggleItem_def wl_addItem_def)
  have "isItemInWishlist (wl_id x) (wl_calculateTotals (wl_items ?s @ [x]))"
    by (simp add: isItemInWishlist_def wl_calculateTotals_def)
  then have second: "toggleItem x (wl_calculateTotals (wl_items ?s @ [x])) =
      (False, wl_removeItem (wl_id x) (wl_calculateTotals (wl_items ?s @ [x])))"
    by (simp add: toggleItem_def)
  have "filter (\<lambda>item. wl_id item \<noteq> wl_id x) (wl_items ?s) = wl_items ?s"
    using assms by (simp add: filter_id_conv)
  then have "wl_removeItem (wl_id x) (wl_calculateTotals (wl_items ?s @ [x])) =
      wl_calculateTotals (wl_items ?s)"
    by (simp add: wl_removeItem_def wl_calculateTotals_def)
  also have "\<dots> = ?s" by (rule wl_consistent_run [symmetric])
  finally show ?thesis using first second by simp
qed

text \<open>C6 (amended) at the wishlist holding identifiers 1 and 2, toggling identifier 3.\<close>

theorem C6_witness:
  "list_all (\<lambda>w. wl_id w \<noteq> wl_id (demo_wish 3))
     (wl_items (run_wishlist [WlAddItem (demo_wish 1), WlAddItem (demo_wish 2)])) \<and>
   toggleItem (demo_wish 3) (run_wishlist [WlAddItem (demo_wish 1), WlAddItem (demo_wish 2)]) =
     (True, \<lparr> wl_items = [demo_wish 1, demo_wish 2, demo_wish 3], wl_totalItems = 3, wl_isEmpty = False \<rparr>) \<and>
   toggleItem (demo_wish 3)
     \<lparr> wl_items = [demo_wish 1, demo_wish 2, demo_wish 3], wl_totalItems = 3, wl_isEmpty = False \<rparr> =
     (False, run_wishlist [WlAddItem (demo_wish 1), WlAddItem (demo_wish 2)])"
proof -
  let ?s = "run_wishlist [WlAddItem (demo_wish 1), WlAddItem (demo_wish 2)]"
  let ?t = "\<lparr> wl_items = [demo_wish 1, demo_wish 2, demo_wish 3], wl_totalItems = 3, wl_isEmpty = False \<rparr>"
  have s: "?s = \<lparr> wl_items = [demo_wish 1, demo_wish 2], wl_totalItems = 2, wl_isEmpty = False \<rparr>"
    by (simp add: run_wishlist_def wl_addItem_def wl_initialState_def wl_calculateTotals_def
          demo_wish_def)
  have h: "\<forall>w\<in>set (wl_items ?s). wl_id w \<noteq> wl_id (demo_wish 3)"
    unfolding s by (simp add: demo_wish_def)
  have t: "toggleItem (demo_wish 3) ?s = (True, ?t)"
    unfolding s
    by (simp add: wl_addItem_def wl_calculateTotals_def demo_wish_def toggleItem_def
          isItemInWishlist_def)
  have f: "fst (toggleItem (demo_wish 3) ?t) = False"
    by (simp add: toggleItem_def isItemInWishlist_def demo_wish_def)
  from C6_toggle_twice_absent [OF h]
  have "snd (toggleItem (demo_wish 3) (snd (toggleItem (demo_wish 3) ?s))) = ?s"
    by blast
  then have "snd (toggleItem (demo_wish 3) ?t) = ?s"
    unfolding t by simp
  with f have "toggleItem (demo_wish 3) ?t = (False, ?s)"
    by (simp add: prod_eq_iff)
  with h t show ?thesis by (simp add: list_all_iff)
qed

text \<open>
  C6 as stated fails when the item is already present: on the wishlist holding
  identifiers 1 and 2, toggling identifier 1 twice reports false, then true, and leaves
  the items in the order 2, 1.
\<close>

theorem C6_counterexample:
  "toggleItem (demo_wish 1) (run_wishlist [WlAddItem (demo_wish 1), WlAddItem (demo_wish 2)]) =
     (False, \<lparr> wl_items = [demo_wish 2], wl_totalItems = 1, wl_isEmpty = False \<rparr>) \<and>
   toggleItem (demo_wish 1) \<lparr> wl_items = [demo_wish 2], wl_totalItems = 1, wl_isEmpty = False \<rparr> =
     (True, \<lparr> wl_items = [demo_wish 2, demo_wish 1], wl_totalItems = 2, wl_isEmpty = False \<rparr>) \<and>
   run_wishlist [WlAddItem (demo_wish 1), WlAddItem (demo_wish 2)] =
     \<lparr> wl_items = [demo_wish 1, demo_wish 2], wl_totalItems = 2, wl_isEmpty = False \<rparr> \<and>
   [demo_wish 2, demo_wish 1] \<noteq> [demo_wish 1, demo_wish 2]"
  by (simp add: run_wishlist_def wl_addItem_def wl_initialState_def wl_calculateTotals_def
          demo_wish_def toggleItem_def isItemInWishlist_def wl_removeItem_def)

text \<open>
  C7. With a callback provided: when no item has identifier \<open>x\<close>, \<open>moveToCart x\<close>
  returns nothing and leaves the wishlist and the callback's world as they were; when the
  lookup finds \<open>item\<close>, it returns \<open>item\<close>, the world is the callback applied once to
  \<open>(item, 1)\<close> (a call log grows by exactly that one call), and the wishlist loses the
  item.
\<close>

theorem C7_moveToCart:
  "((\<forall>w\<in>set (wl_items s). wl_id w \<noteq> x) \<longrightarrow>
      moveToCart x (Some cb) (s, world) = (None, s, world)) \<and>
   (\<forall>item. List.find (\<lambda>w. wl_id w = x) (wl_items s) = Some item \<longrightarrow>
      moveToCart x (Some cb) (s, world) = (Some item, wl_removeItem x s, cb item 1 world) \<and>
      moveToCart x (Some record_call) (s, calls) =
        (Some item, wl_removeItem x s, calls @ [(item, 1)]) \<and>
      wl_items (wl_removeItem x s) = filter (\<lambda>w. wl_id w \<noteq> x) (wl_items s) \<and>
      item \<notin> set (wl_items (wl_removeItem x s)))"
proof (intro conjI impI allI)
  assume "\<forall>w\<in>set (wl_items s). wl_id w \<noteq> x"
  then have "List.find (\<lambda>w. wl_id w = x) (wl_items s) = None"
    by (simp add: find_None_iff)
  then show "moveToCart x (Some cb) (s, world) = (None, s, world)"
    by (simp add: moveToCart_def)
next
  fix item
  assume f: "List.find (\<lambda>w. wl_id w = x) (wl_items s) = Some item"
  then show "moveToCart x (Some cb) (s, world) = (Some item, wl_removeItem x s, cb item 1 world)"
    by (simp add: moveToCart_def)
  from f show "moveToCart x (Some record_call) (s, calls) =
        (Some item, wl_removeItem x s, calls @ [(item, 1)])"
    by (simp add: moveToCart_def record_call_def)
  show "wl_items (wl_removeItem x s) = filter (\<lambda>w. wl_id w \<noteq> x) (wl_items s)"
    by (simp add: wl_removeItem_def wl_calculateTotals_def)
  from find_Some_holds [OF f] show "item \<notin> set (wl_items (wl_removeItem x s))"
    by (simp add: wl_removeItem_def wl_calculateTotals_def)
qed

text \<open>C7 at the wishlist holding identifiers 1 and 2: moving the absent 3 and the present 1.\<close>

theorem C7_witness:
  "list_all (\<lambda>w. wl_id w \<noteq> 3)
     (wl_items (run_wishlist [WlAddItem (demo_wish 1), WlAddItem (demo_wish 2)])) \<and>
   moveToCart 3 (Some record_call) (run_wishlist [WlAddItem (demo_wish 1), WlAddItem (demo_wish 2)], []) =
     (None, run_wishlist [WlAddItem (demo_wish 1), WlAddItem (demo_wish 2)], []) \<and>
   List.find (\<lambda>w. wl_id w = 1) (wl_items (run_wishlist [WlAddItem (demo_wish 1), WlAddItem (demo_wish 2)]))
     = Some (demo_wish 1) \<and>
   moveToCart 1 (Some record_call) (run_wishlist [WlAddItem (demo_wish 1), WlAddItem (demo_wish 2)], []) =
     (Some (demo_wish 1), \<lparr> wl_items = [demo_wish 2], wl_totalItems = 1, wl_isEmpty = False \<rparr>,
      [(demo_wish 1, 1)])"
proof -
  let ?s = "run_wishlist [WlAddItem (demo_wish 1), WlAddItem (demo_wish 2)]"
  have s: "?s = \<lparr> wl_items = [demo_wish 1, demo_wish 2], wl_totalItems = 2, wl_isEmpty = False \<rparr>"
    by (simp add: run_wishlist_def wl_addItem_def wl_initialState_def wl_calculateTotals_def
          demo_wish_def)
  have h1: "\<forall>w\<in>set (wl_items ?s). wl_id w \<noteq> 3"
    unfolding s by (simp add: demo_wish_def)
  have h2: "List.find (\<lambda>w. wl_id w = 1) (wl_items ?s) = Some (demo_wish 1)"
    unfolding s by (simp add: demo_wish_def)
  have r: "wl_removeItem 1 ?s = \<lparr> wl_items = [demo_wish 2], wl_totalItems = 1, wl_isEmpty = False \<rparr>"
    unfolding s by (simp add: wl_removeItem_def wl_calculateTotals_def demo_wish_def)
  from C7_moveToCart [of ?s 3 record_call "[]" "[]"] h1
  have a: "moveToCart 3 (Some record_call) (?s, []) = (None, ?s, [])" by blast
  from C7_moveToCart [of ?s 1 record_call "[]" "[]"] h2
  have b: "moveToCart 1 (Some record_call) (?s, []) = (Some (demo_wish 1), wl_removeItem 1 ?s, [] @ [(demo_wish 1, 1)])"
    by blast
  have c: "list_all (\<lambda>w. wl_id w \<noteq> 3) (wl_items ?s)"
    using h1 by (simp add: list_all_iff)
  show ?thesis
    unfolding a b r using c h2 by simp
qed

section \<open>Properties of the validation\<close>

lemma price_check_iff:
  "v \<noteq> JNum NaN \<Longrightarrow>
   (typeof v \<noteq> ''number'' \<or> num_less (as_number v) (Num 0)) \<longleftrightarrow>
   \<not> (\<exists>p. v = JNum (Num p) \<and> 0 \<le> p)"
proof (cases v)
  case (JNum n)
  assume "v \<noteq> JNum NaN"
  with JNum show ?thesis by (cases n) auto
qed simp_all

lemma quantity_check_iff:
  "v \<noteq> JNum NaN \<Longrightarrow>
   (typeof v \<noteq> ''number'' \<or> num_less_eq (as_number v) (Num 0)) \<longleftrightarrow>
   \<not> (\<exists>q. v = JNum (Num q) \<and> 0 < q)"
proof (cases v)
  case (JNum n)
  assume "v \<noteq> JNum NaN"
  with JNum show ?thesis by (cases n) auto
qed simp_all

lemma title_check_iff:
  "(\<not> truthy v \<or> typeof v \<noteq> ''string'') \<longleftrightarrow> \<not> (\<exists>s. v = JStr s \<and> s \<noteq> [])"
  by (cases v) auto

text \<open>
  C8 (amended). For every item record whose price and quantity are not \<^verbatim>\<open>NaN\<close>,
  \<open>validateCartItem\<close> returns a result without throwing, and \<open>isValid\<close> is true exactly
  when the id is truthy, the title is a non-empty string, the price is a number \<open>\<ge> 0\<close>
  and the quantity is a number \<open>> 0\<close>, whole or not.
\<close>

theorem C8_validate_amended:
  assumes "get_prop (JObj props) ''price'' \<noteq> JNum NaN"
    and "get_prop (JObj props) ''quantity'' \<noteq> JNum NaN"
  shows "\<exists>r. validateCartItem (JObj props) = Inr r \<and>
           (isValid r \<longleftrightarrow>
              truthy (get_prop (JObj props) ''id'') \<and>
              (\<exists>s. get_prop (JObj props) ''title'' = JStr s \<and> s \<noteq> []) \<and>
              (\<exists>p. get_prop (JObj props) ''price'' = JNum (Num p) \<and> 0 \<le> p) \<and>
              (\<exists>q. get_prop (JObj props) ''quantity'' = JNum (Num q) \<and> 0 < q))"
proof -
  let ?item = "JObj props"
  define e1 where
    "e1 = (if \<not> truthy (get_prop ?item ''id'') then [''Item ID is required''] else [])"
  define e2 where
    "e2 = (if \<not> truthy (get_prop ?item ''title'') \<or>
              typeof (get_prop ?item ''title'') \<noteq> ''string''
           then e1 @ [''Item title is required and must be a string''] else e1)"
  define e3 where
    "e3 = (if typeof (get_prop ?item ''price'') \<noteq> ''number'' \<or>
              num_less (as_number (get_prop ?item ''price'')) (Num 0)
           then e2 @ [''Item price must be a non-negative number''] else e2)"
  define e4 where
    "e4 = (if typeof (get_prop ?item ''quantity'') \<noteq> ''number'' \<or>
              num_less_eq (as_number (get_prop ?item ''quantity'')) (Num 0)
           then e3 @ [''Item quantity must be a positive number''] else e3)"
  have "\<exists>w. validateCartItem ?item = Inr \<lparr> isValid = (length e4 = 0), errors = e4, warnings = w \<rparr>"
    unfolding validateCartItem_def Let_def e4_def e3_def e2_def e1_def by simp
  then obtain w where r:
    "validateCartItem ?item = Inr \<lparr> isValid = (length e4 = 0), errors = e4, warnings = w \<rparr>"
    by blast
  have l1: "length e1 = 0 \<longleftrightarrow> truthy (get_prop ?item ''id'')"
    by (simp add: e1_def)
  have l2: "length e2 = 0 \<longleftrightarrow>
      length e1 = 0 \<and> (\<exists>s. get_prop ?item ''title'' = JStr s \<and> s \<noteq> [])"
    unfolding e2_def title_check_iff by simp
  have l3: "length e3 = 0 \<longleftrightarrow>
      length e2 = 0 \<and> (\<exists>p. get_prop ?item ''price'' = JNum (Num p) \<and> 0 \<le> p)"
    unfolding e3_def price_check_iff [OF assms(1)] by simp
  have l4: "length e4 = 0 \<longleftrightarrow>
      length e3 = 0 \<and> (\<exists>q. get_prop ?item ''quantity'' = JNum (Num q) \<and> 0 < q)"
    unfolding e4_def quantity_check_iff [OF assms(2)] by simp
  show ?thesis
    unfolding r using l1 l2 l3 l4 by simp
qed

text \<open>C8 (amended) at an item with a fractional quantity, which is valid.\<close>

theorem C8_witness:
  "get_prop (sample_item (JNum (Num 1)) (JStr ''Laptop'') (JNum (Num 999)) (JNum (Num (5 / 2))))
     ''price'' = JNum (Num 999) \<and>
   get_prop (sample_item (JNum (Num 1)) (JStr ''Laptop'') (JNum (Num 999)) (JNum (Num (5 / 2))))
     ''quantity'' = JNum (Num (5 / 2)) \<and>
   (\<exists>r. validateCartItem
          (sample_item (JNum (Num 1)) (JStr ''Laptop'') (JNum (Num 999)) (JNum (Num (5 / 2))))
          = Inr r \<and> isValid r)"
proof -
  let ?props = "[(''id'', JNum (Num 1)), (''title'', JStr ''Laptop''),
                  (''price'', JNum (Num 999)), (''quantity'', JNum (Num (5 / 2)))]"
  have p: "get_prop (JObj ?props) ''price'' = JNum (Num 999)" by simp
  have q: "get_prop (JObj ?props) ''quantity'' = JNum (Num (5 / 2))" by simp
  have h1: "get_prop (JObj ?props) ''price'' \<noteq> JNum NaN" by simp
  have h2: "get_prop (JObj ?props) ''quantity'' \<noteq> JNum NaN" by simp
  have t: "\<exists>s. get_prop (JObj ?props) ''title'' = JStr s \<and> s \<noteq> []" by simp
  have p': "\<exists>p. get_prop (JObj ?props) ''price'' = JNum (Num p) \<and> 0 \<le> p" by simp
  have "get_prop (JObj ?props) ''quantity'' = JNum (Num (5 / 2)) \<and> (0::rat) < 5 / 2" by simp
  then have q': "\<exists>q. get_prop (JObj ?props) ''quantity'' = JNum (Num q) \<and> 0 < q" by (rule exI)
  have i: "truthy (get_prop (JObj ?props) ''id'')" by simp
  from C8_validate_amended [OF h1 h2] t p' q' i
  have "\<exists>r. validateCartItem (JObj ?props) = Inr r \<and> isValid r"
    by blast
  then show ?thesis unfolding sample_item_def using p q by blast
qed

text \<open>
  C8 as stated fails in both directions: an item with quantity 5/2 is valid although its
  quantity is not an integer, and an item whose title is the empty string is rejected
  although the title is a string.
\<close>

theorem C8_counterexample:
  "validateCartItem
     (sample_item (JNum (Num 1)) (JStr ''Laptop'') (JNum (Num 999)) (JNum (Num (5 / 2)))) =
     Inr \<lparr> isValid = True, errors = [], warnings = [] \<rparr> \<and>
   (5 / 2 :: rat) \<notin> \<int> \<and>
   validateCartItem (sample_item (JNum (Num 1)) (JStr []) (JNum (Num 999)) (JNum (Num 2))) =
     Inr \<lparr> isValid = False, errors = [''Item title is required and must be a string''],
           warnings = [] \<rparr> \<and>
   typeof (JStr []) = ''string'' \<and> (2 :: rat) \<in> \<int>"
  by (simp add: validateCartItem_def sample_item_def)

section \<open>Properties of the filter engine\<close>

text \<open>
  C1 (amended). Whatever price bounds are set, a record whose price is not numeric
  (\<^verbatim>\<open>Number(price)\<close> is \<^verbatim>\<open>NaN\<close>) passes the price filter: \<open>filteredData\<close> keeps it
  exactly when it passes the category filter.
\<close>

theorem C1_nonnumeric_price_passes:
  assumes "isNaN (js_Number B (opt_chain item ''price''))"
  shows "price_passes B bounds item \<and>
         (item \<in> set (filteredData B data selectedCategories bounds) \<longleftrightarrow>
            item \<in> set data \<and> category_passes selectedCategories item)"
proof -
  from assms have "price_passes B bounds item"
    by (simp add: price_passes_def)
  then show ?thesis
    by (auto simp: filteredData_def)
qed

text \<open>C1 (amended) at a record priced \<^verbatim>\<open>"n/a"\<close> under the lower bound \<^verbatim>\<open>"10"\<close>.\<close>

theorem C1_witness:
  "isNaN (js_Number example_builtins
            (opt_chain (product 1 ''Laptop'' ''Electronics'' (JStr ''n/a'')) ''price'')) \<and>
   price_passes example_builtins \<lparr> pr_min = ''10'', pr_max = [] \<rparr>
     (product 1 ''Laptop'' ''Electronics'' (JStr ''n/a''))"
proof -
  have h: "isNaN (js_Number example_builtins
            (opt_chain (product 1 ''Laptop'' ''Electronics'' (JStr ''n/a'')) ''price''))"
    by (simp add: opt_chain_def product_def example_builtins_def parse_decimal_def)
  from C1_nonnumeric_price_passes [OF h] h show ?thesis by blast
qed

text \<open>
  C1 as stated fails: with the lower bound \<^verbatim>\<open>"10"\<close> set, the record priced
  \<^verbatim>\<open>"n/a"\<close> is kept, while the record priced 5 is dropped.
\<close>

theorem C1_counterexample:
  "pr_min \<lparr> pr_min = ''10'', pr_max = [] \<rparr> \<noteq> [] \<and>
   isNaN (js_Number example_builtins
            (opt_chain (product 1 ''Laptop'' ''Electronics'' (JStr ''n/a'')) ''price'')) \<and>
   filteredData example_builtins
     [product 1 ''Laptop'' ''Electronics'' (JStr ''n/a''),
      product 2 ''Phone'' ''Electronics'' (JNum (Num 5)),
      product 3 ''Book'' ''Books'' (JNum (Num 19))]
     [] \<lparr> pr_min = ''10'', pr_max = [] \<rparr> =
     [product 1 ''Laptop'' ''Electronics'' (JStr ''n/a''),
      product 3 ''Book'' ''Books'' (JNum (Num 19))]"
  by (simp add: filteredData_def category_passes_def price_passes_def opt_chain_def
        product_def example_builtins_def parse_decimal_def)

section \<open>Properties of the search engine\<close>

subsection \<open>Fuzzy matching\<close>

text \<open>
  The loop started at pattern index \<open>k\<close> advances both counters by the same amount and
  ends at the end of the pattern exactly when the rest of the pattern is an in-order
  subsequence of the tgt.
\<close>

lemma fuzzyLoop_subseq:
  "k \<le> length p \<Longrightarrow>
   \<exists>m. fuzzyLoop tgt p k s = (s + m, k + m) \<and>
       (k + m = length p \<longleftrightarrow> subseq (drop k p) tgt)"
proof (induction tgt arbitrary: k s)
  case Nil
  then show ?case by (auto dest: list_emb_Nil2)
next
  case (Cons c rest)
  show ?case
  proof (cases "k < length p")
    case False
    with Cons.prems have "k = length p" by simp
    then show ?thesis by simp
  next
    case True
    then have split: "drop k p = p ! k # drop (Suc k) p"
      by (simp add: Cons_nth_drop_Suc)
    show ?thesis
    proof (cases "c = p ! k")
      case same: True
      from True have "Suc k \<le> length p" by simp
      from Cons.IH [OF this, of "Suc s"]
      obtain m where m: "fuzzyLoop rest p (Suc k) (Suc s) = (Suc s + m, Suc k + m)"
        and iff: "Suc k + m = length p \<longleftrightarrow> subseq (drop (Suc k) p) rest"
        by blast
      have "fuzzyLoop (c # rest) p k s = (s + Suc m, k + Suc m)"
        using True same m by simp
      moreover have "k + Suc m = length p \<longleftrightarrow> subseq (drop k p) (c # rest)"
        using iff same by (simp add: split)
      ultimately show ?thesis by blast
    next
      case differ: False
      from Cons.IH [OF Cons.prems, of s]
      obtain m where m: "fuzzyLoop rest p k s = (s + m, k + m)"
        and iff: "k + m = length p \<longleftrightarrow> subseq (drop k p) rest"
        by blast
      have "fuzzyLoop (c # rest) p k s = (s + m, k + m)"
        using True differ m by simp
      moreover have "subseq (drop k p) (c # rest) \<longleftrightarrow> subseq (drop k p) rest"
        using differ by (simp add: split subseq_Cons2_neq)
      ultimately show ?thesis using iff by blast
    qed
  qed
qed

lemma fuzzyMatch_eq:
  assumes "pattern \<noteq> []"
  shows "fuzzyMatch tgt pattern = (if subseq pattern tgt then 1 else 0)"
proof (cases "tgt = []")
  case True
  with assms show ?thesis by (simp add: fuzzyMatch_def)
next
  case False
  from fuzzyLoop_subseq [of 0 pattern tgt 0]
  obtain m where m: "fuzzyLoop tgt pattern 0 0 = (m, m)"
    and iff: "m = length pattern \<longleftrightarrow> subseq pattern tgt"
    by auto
  show ?thesis
    using False assms m iff by (auto simp: fuzzyMatch_def)
qed

lemma normalize_Nil_iff: "normalize_case cs s = [] \<longleftrightarrow> s = []"
  by (simp add: normalize_case_def toLowerCase_def)

lemma strategy_matches_fuzzy:
  assumes "strategy opts = ''fuzzy''" and "0 < minScore opts" and "minScore opts \<le> 1"
    and "nq \<noteq> []"
  shows "strategy_matches B opts nq item (k, path) \<longleftrightarrow>
         (\<exists>tgt. resolved_text B (caseSensitive opts) item path = Some tgt \<and> subseq nq tgt)"
  using assms
  by (auto simp: strategy_matches_def resolved_text_def Let_def fuzzyMatch_eq)

text \<open>
  C9. For a non-empty query the fuzzy score is 0 when the query is not an in-order
  subsequence of the target and lies in (0, 1] when it is. Hence, for a non-empty query
  and a \<open>minScore\<close> in (0, 1] such as the default 0.3, strategy \<^verbatim>\<open>fuzzy\<close> keeps exactly
  the records where some key resolves to a tgt whose normalized form has the normalized
  query as an in-order subsequence.
\<close>

theorem C9_fuzzy_score:
  assumes "query \<noteq> []"
  shows "(\<not> subseq query target \<longrightarrow> fuzzyMatch target query = 0) \<and>
         (subseq query target \<longrightarrow> 0 < fuzzyMatch target query \<and> fuzzyMatch target query \<le> 1) \<and>
         (strategy opts = ''fuzzy'' \<and> 0 < minScore opts \<and> minScore opts \<le> 1 \<longrightarrow>
            advancedSearch B data query opts =
              filter (\<lambda>item. \<exists>(k, path) \<in> set (keys opts). \<exists>tgt.
                        resolved_text B (caseSensitive opts) item path = Some tgt \<and>
                        subseq (normalize_case (caseSensitive opts) query) tgt)
                     data)"
proof (intro conjI impI)
  show "fuzzyMatch target query = 0" if "\<not> subseq query target"
    using that assms by (simp add: fuzzyMatch_eq)
  show "0 < fuzzyMatch target query" and "fuzzyMatch target query \<le> 1" if "subseq query target"
    using that assms by (simp_all add: fuzzyMatch_eq)
next
  assume opts: "strategy opts = ''fuzzy'' \<and> 0 < minScore opts \<and> minScore opts \<le> 1"
  let ?nq = "normalize_case (caseSensitive opts) query"
  from assms have nq: "?nq \<noteq> []" by (simp add: normalize_Nil_iff)
  have "strategy_matches B opts ?nq item e \<longleftrightarrow>
        (case e of (k, path) \<Rightarrow> \<exists>tgt.
            resolved_text B (caseSensitive opts) item path = Some tgt \<and> subseq ?nq tgt)"
    for item e
    using opts nq by (cases e) (simp add: strategy_matches_fuzzy)
  then have "list_ex (strategy_matches B opts ?nq item) (keys opts) \<longleftrightarrow>
        (\<exists>(k, path) \<in> set (keys opts). \<exists>tgt.
            resolved_text B (caseSensitive opts) item path = Some tgt \<and> subseq ?nq tgt)"
    for item
    by (simp add: list_ex_iff)
  then show "advancedSearch B data query opts =
      filter (\<lambda>item. \<exists>(k, path) \<in> set (keys opts). \<exists>tgt.
                resolved_text B (caseSensitive opts) item path = Some tgt \<and>
                subseq ?nq tgt) data"
    using assms by (simp add: advancedSearch_def Let_def)
qed

text \<open>C9 at the query \<^verbatim>\<open>LP\<close> over three products searched by title: only the laptop has
  \<^verbatim>\<open>lp\<close> as a subsequence of its lowercased title.\<close>

theorem C9_witness:
  "''LP'' \<noteq> [] \<and>
   subseq ''lpt'' ''laptop'' \<and> fuzzyMatch ''laptop'' ''lpt'' = 1 \<and>
   \<not> subseq ''ptl'' ''laptop'' \<and> fuzzyMatch ''laptop'' ''ptl'' = 0 \<and>
   advancedSearch example_builtins
     [product 1 ''Laptop'' ''Electronics'' (JNum (Num 999)),
      product 2 ''Phone'' ''Electronics'' (JNum (Num 599)),
      product 3 ''Book'' ''Books'' (JNum (Num 19))]
     ''LP''
     (default_options\<lparr> keys := [(''title'', PathStr ''title'')], strategy := ''fuzzy'' \<rparr>) =
     [product 1 ''Laptop'' ''Electronics'' (JNum (Num 999))]"
proof -
  let ?opts = "default_options\<lparr> keys := [(''title'', PathStr ''title'')], strategy := ''fuzzy'' \<rparr>"
  let ?data = "[product 1 ''Laptop'' ''Electronics'' (JNum (Num 999)),
      product 2 ''Phone'' ''Electronics'' (JNum (Num 599)),
      product 3 ''Book'' ''Books'' (JNum (Num 19))]"
  have q: "''LP'' \<noteq> []" and q3: "''lpt'' \<noteq> []" and q4: "''ptl'' \<noteq> []" by simp_all
  have s1: "subseq ''lpt'' ''laptop''" by simp
  have s2: "\<not> subseq ''ptl'' ''laptop''" by simp
  have o: "strategy ?opts = ''fuzzy'' \<and> 0 < minScore ?opts \<and> minScore ?opts \<le> 1"
    by (simp add: default_options_def)
  have cs: "caseSensitive ?opts = False"
    by (simp add: default_options_def)
  have nq: "normalize_case False ''LP'' = ''lp''"
    by (simp add: normalize_case_def toLowerCase_def toLowerCase_char_def)
  have r1: "resolved_text example_builtins False
              (product 1 ''Laptop'' ''Electronics'' (JNum (Num 999))) (PathStr ''title'') = Some ''laptop''"
    by (simp add: resolved_text_def getNestedValue_def product_def default_options_def
          normalize_case_def toLowerCase_def toLowerCase_char_def)
  have r2: "resolved_text example_builtins False
              (product 2 ''Phone'' ''Electronics'' (JNum (Num 599))) (PathStr ''title'') = Some ''phone''"
    by (simp add: resolved_text_def getNestedValue_def product_def default_options_def
          normalize_case_def toLowerCase_def toLowerCase_char_def)
  have r3: "resolved_text example_builtins False
              (product 3 ''Book'' ''Books'' (JNum (Num 19))) (PathStr ''title'') = Some ''book''"
    by (simp add: resolved_text_def getNestedValue_def product_def default_options_def
          normalize_case_def toLowerCase_def toLowerCase_char_def)
  have k: "keys ?opts = [(''title'', PathStr ''title'')]" by simp
  from C9_fuzzy_score [OF q3, of "''laptop''"] s1
  have f1: "fuzzyMatch ''laptop'' ''lpt'' = 1"
    by (simp add: fuzzyMatch_def)
  from C9_fuzzy_score [OF q4, of "''laptop''"] s2
  have f2: "fuzzyMatch ''laptop'' ''ptl'' = 0" by blast
  from C9_fuzzy_score [OF q, of _ ?opts example_builtins ?data] o
  have "advancedSearch example_builtins ?data ''LP'' ?opts =
      filter (\<lambda>item. \<exists>(k, path) \<in> set (keys ?opts). \<exists>tgt.
                resolved_text example_builtins (caseSensitive ?opts) item path = Some tgt \<and>
                subseq (normalize_case (caseSensitive ?opts) ''LP'') tgt) ?data"
    by blast
  also have "\<dots> = [product 1 ''Laptop'' ''Electronics'' (JNum (Num 999))]"
    unfolding cs nq k by (simp add: r1 r2 r3)
  finally show ?thesis using q s1 s2 f1 f2 by blast
qed

subsection \<open>Rounding of doubles\<close>

lemma bit_length_0 [simp]: "bit_length 0 = 0"
  by (simp add: bit_length.simps)

lemma bit_length_bounds:
  "0 < n \<Longrightarrow> 2 ^ (bit_length n - 1) \<le> n \<and> n < 2 ^ bit_length n"
proof (induction n rule: bit_length.induct)
  case (1 n)
  show ?case
  proof (cases "n div 2 = 0")
    case True
    with 1 have "n = 1" by (simp add: div_eq_0_iff) 
    then show ?thesis by (simp add: bit_length.simps)
  next
    case False
    with 1 have IH: "2 ^ (bit_length (n div 2) - 1) \<le> n div 2" "n div 2 < 2 ^ bit_length (n div 2)"
      by simp_all
    from False have pos: "0 < bit_length (n div 2)"
      by (simp add: bit_length.simps [of "n div 2"])
    have bl: "bit_length n = Suc (bit_length (n div 2))"
      using 1(2) by (simp add: bit_length.simps [of n])
    have "2 ^ (bit_length n - 1) = 2 * 2 ^ (bit_length (n div 2) - 1)"
      using pos bl by (cases "bit_length (n div 2)") simp_all
    also have "\<dots> \<le> 2 * (n div 2)" using IH(1) by simp
    also have "\<dots> \<le> n" by simp
    finally have lo: "2 ^ (bit_length n - 1) \<le> n" .
    have "n < 2 * (n div 2) + 2" by presburger
    also have "\<dots> \<le> 2 * 2 ^ bit_length (n div 2)" using IH(2) by simp
    finally have "n < 2 ^ bit_length n" by (simp add: bl)
    with lo show ?thesis by simp
  qed
qed

lemma bit_length_le: "n < 2 ^ k \<Longrightarrow> bit_length n \<le> k"
proof (cases "n = 0")
  case True
  then show ?thesis by simp
next
  case False
  assume "n < 2 ^ k"
  moreover from False have "2 ^ (bit_length n - 1) \<le> n"
    using bit_length_bounds [of n] by simp
  ultimately have "(2::nat) ^ (bit_length n - 1) < 2 ^ k" by (rule le_less_trans [rotated])
  then have "bit_length n - 1 < k" by (rule power_less_imp_less_exp [rotated]) simp
  then show ?thesis by simp
qed

lemma bit_length_gt: "2 ^ j \<le> n \<Longrightarrow> j < bit_length n"
proof -
  assume a: "2 ^ j \<le> n"
  then have "0 < n" by (metis less_le_trans zero_less_numeral zero_less_power)
  then have "n < 2 ^ bit_length n" using bit_length_bounds by blast
  with a have "(2::nat) ^ j < 2 ^ bit_length n" by (rule le_less_trans)
  then show ?thesis by (rule power_less_imp_less_exp [rotated]) simp
qed

lemma round_mag_0 [simp]: "round_mag 0 q = 0"
  by (simp add: round_mag_def)

lemma round_mag_ge_floor:
  "0 < q \<Longrightarrow> (p div (q * 2 ^ (bit_length (p div q) - 53))) * 2 ^ (bit_length (p div q) - 53) \<le> round_mag p q"
  by (simp add: round_mag_def Let_def)

lemma round_mag_lower:
  assumes "0 < q" and "2 ^ j * q \<le> p"
  shows "2 ^ j \<le> round_mag p q"
proof -
  let ?f = "p div q"
  let ?sh = "bit_length ?f - 53"
  from assms have f: "2 ^ j \<le> ?f"
    by (metis div_le_mono div_mult_self_is_m)
  then have fpos: "0 < ?f" by (metis less_le_trans zero_less_numeral zero_less_power)
  have n0: "p div (q * 2 ^ ?sh) = ?f div 2 ^ ?sh"
    by (simp add: div_mult2_eq)
  have "2 ^ j \<le> (?f div 2 ^ ?sh) * 2 ^ ?sh"
  proof (cases "bit_length ?f \<le> 53")
    case True
    then show ?thesis using f by simp
  next
    case False
    then have k: "bit_length ?f = ?sh + 53" by simp
    from bit_length_bounds [OF fpos] have "2 ^ (bit_length ?f - 1) \<le> ?f" by blast
    then have "2 ^ (?sh + 52) \<le> ?f" using k by simp
    then have "2 ^ (?sh + 52) div 2 ^ ?sh \<le> ?f div 2 ^ ?sh" by (rule div_le_mono)
    moreover have "(2::nat) ^ (?sh + 52) div 2 ^ ?sh = 2 ^ 52"
      by (simp only: power_add) simp
    ultimately have "(2::nat) ^ 52 \<le> ?f div 2 ^ ?sh" by (simp only:)
    then have le: "(2::nat) ^ 52 * 2 ^ ?sh \<le> (?f div 2 ^ ?sh) * 2 ^ ?sh"
      by (rule mult_le_mono1)
    from bit_length_gt [OF f] have "j \<le> ?sh + 52" using k by simp
    then have "(2::nat) ^ j \<le> 2 ^ (?sh + 52)" by (rule power_increasing) simp
    also have "\<dots> = 2 ^ 52 * 2 ^ ?sh" by (simp only: power_add mult.commute)
    also note le
    finally show ?thesis .
  qed
  also have "\<dots> \<le> round_mag p q"
    using round_mag_ge_floor [OF assms(1), of p] by (simp add: n0)
  finally show ?thesis .
qed

lemma round_mag_upper:
  assumes "0 < q" and "p \<le> 2 ^ j * q"
  shows "round_mag p q \<le> 2 ^ j"
proof -
  let ?f = "p div q"
  let ?sh = "bit_length ?f - 53"
  let ?d = "q * 2 ^ ?sh"
  let ?n0 = "p div ?d"
  let ?r = "p mod ?d"
  from assms have f: "?f \<le> 2 ^ j"
    by (metis div_le_mono div_mult_self_is_m)
  have sh: "?sh \<le> j"
  proof (cases "?f = 0")
    case True
    then show ?thesis by simp
  next
    case False
    with bit_length_bounds [of ?f] have "2 ^ (bit_length ?f - 1) \<le> ?f" by simp
    with f have "(2::nat) ^ (bit_length ?f - 1) \<le> 2 ^ j" by (rule le_trans [rotated])
    then have "bit_length ?f - 1 \<le> j" by (rule power_le_imp_le_exp [rotated]) simp
    then show ?thesis by simp
  qed
  have dpos: "0 < ?d" using assms(1) by simp
  have split: "2 ^ j * q = 2 ^ (j - ?sh) * ?d"
    using sh by (simp add: power_add [symmetric] mult.commute mult.left_commute)
  define n where "n = (if 2 * ?r < ?d then ?n0
               else if ?d < 2 * ?r then ?n0 + 1
               else if even ?n0 then ?n0 else ?n0 + 1)"
  have res: "round_mag p q = n * 2 ^ ?sh"
    by (simp add: round_mag_def Let_def n_def)
  have "n \<le> 2 ^ (j - ?sh)"
  proof (cases "?r = 0")
    case True
    then have "n = ?n0" using dpos by (simp add: n_def)
    moreover have "?n0 \<le> 2 ^ (j - ?sh)"
      using assms(2) split dpos by (metis div_le_mono div_mult_self_is_m)
    ultimately show ?thesis by simp
  next
    case False
    have "?n0 * ?d + ?r = p" by (rule div_mult_mod_eq)
    with False have "?n0 * ?d < p" by linarith
    also from assms(2) split have "p \<le> 2 ^ (j - ?sh) * ?d" by (simp only:)
    finally have "?n0 * ?d < 2 ^ (j - ?sh) * ?d" .
    then have "?n0 < 2 ^ (j - ?sh)" by (rule mult_less_cancel2 [THEN iffD1, THEN conjunct2])
    moreover have "n \<le> ?n0 + 1" by (simp add: n_def)
    ultimately show ?thesis by simp
  qed
  then have "n * 2 ^ ?sh \<le> 2 ^ (j - ?sh) * 2 ^ ?sh" by simp
  also have "\<dots> = 2 ^ j" using sh by (simp add: power_add [symmetric])
  finally show ?thesis by (simp add: res)
qed

lemma round_mag_exact:
  assumes "m < 2 ^ 53"
  shows "round_mag (m * 2 ^ e) 1 = m * 2 ^ e"
proof -
  let ?p = "m * 2 ^ e"
  let ?sh = "bit_length ?p - 53"
  have "?p < 2 ^ (53 + e)" using assms by (simp add: power_add)
  then have "bit_length ?p \<le> 53 + e" by (rule bit_length_le)
  then have sh: "?sh \<le> e" by simp
  then have dvd: "(2::nat) ^ ?sh dvd ?p"
    by (simp add: le_imp_power_dvd dvd_mult)
  then have "?p mod 2 ^ ?sh = 0" by simp
  moreover from dvd have "?p div 2 ^ ?sh * 2 ^ ?sh = ?p" by simp
  ultimately show ?thesis by (simp add: round_mag_def Let_def)
qed
lemma round_quot_fin:
  assumes "0 < q" and "0 \<le> p" and "p \<le> 2 ^ hi * q" and "hi < 2098"
  shows "\<exists>m. round_quot p q = DFin m \<and> 0 \<le> m \<and> m \<le> 2 ^ hi \<and>
             (\<forall>lo. 2 ^ lo * q \<le> p \<longrightarrow> 2 ^ lo \<le> m)"
proof -
  let ?m = "round_mag (nat \<bar>p\<bar>) (nat q)"
  have q: "0 < nat q" using assms(1) by simp
  have "nat \<bar>p\<bar> \<le> nat (2 ^ hi * q)" using assms(2,3) by simp
  also have "\<dots> = 2 ^ hi * nat q" using assms(1) by (simp add: nat_mult_distrib nat_power_eq)
  finally have "?m \<le> 2 ^ hi" by (rule round_mag_upper [OF q])
  then have up: "int ?m \<le> 2 ^ hi" by (metis of_nat_le_iff of_nat_numeral of_nat_power)
  also have "(2::int) ^ hi < 2 ^ 2098" using assms(4) by (rule power_strict_increasing) simp
  finally have fin: "round_quot p q = DFin (int ?m)"
    using assms(2) by (simp add: round_quot_def Let_def)
  have "2 ^ lo \<le> int ?m" if "2 ^ lo * q \<le> p" for lo
  proof -
    from that assms(1,2) have "nat (2 ^ lo * q) \<le> nat \<bar>p\<bar>" by simp
    then have "2 ^ lo * nat q \<le> nat \<bar>p\<bar>"
      using assms(1) by (simp add: nat_mult_distrib nat_power_eq)
    from round_mag_lower [OF q this] show ?thesis
      by (metis of_nat_le_iff of_nat_numeral of_nat_power)
  qed
  with fin up show ?thesis by auto
qed

lemma round_quot_at_least:
  assumes "0 < q" and "2 ^ lo * q \<le> p"
  shows "at_least lo (round_quot p q)"
proof -
  let ?m = "round_mag (nat \<bar>p\<bar>) (nat q)"
  have q: "0 < nat q" using assms(1) by simp
  have "(0::int) \<le> 2 ^ lo * q" using assms(1) by simp
  with assms(2) have p: "0 \<le> p" by linarith
  from assms p have "nat (2 ^ lo * q) \<le> nat \<bar>p\<bar>" by simp
  then have "2 ^ lo * nat q \<le> nat \<bar>p\<bar>"
    using assms(1) by (simp add: nat_mult_distrib nat_power_eq)
  from round_mag_lower [OF q this] have "2 ^ lo \<le> int ?m"
    by (metis of_nat_le_iff of_nat_numeral of_nat_power)
  with p show ?thesis by (simp add: round_quot_def Let_def at_least_def)
qed

lemma round_quot_nonpos:
  assumes "p \<le> 0"
  shows "at_most_zero (round_quot p q)"
proof (cases "p = 0")
  case True
  then show ?thesis by (simp add: round_quot_def at_most_zero_def)
next
  case False
  with assms have "p < 0" by simp
  then show ?thesis by (simp add: round_quot_def Let_def at_most_zero_def)
qed

lemma d_of_int_exact:
  assumes "0 \<le> n" and "n < 2 ^ 53"
  shows "d_of_int n = DFin (n * 2 ^ 1074)"
proof -
  have m: "nat n < 2 ^ 53" using assms by (simp add: nat_less_iff)
  have "nat \<bar>n * 2 ^ 1074\<bar> = nat n * 2 ^ 1074"
    using assms(1) by (simp del: power_numeral add: nat_mult_distrib nat_power_eq abs_mult)
  then have "round_mag (nat \<bar>n * 2 ^ 1074\<bar>) (nat 1) = nat n * 2 ^ 1074"
    using round_mag_exact [OF m, of 1074] by (simp del: power_numeral)
  then have r: "int (round_mag (nat \<bar>n * 2 ^ 1074\<bar>) (nat 1)) = n * 2 ^ 1074"
    using assms(1) by (simp del: power_numeral)
  have "n * 2 ^ 1074 < 2 ^ 53 * 2 ^ 1074"
    using assms(2) by (rule mult_strict_right_mono) (rule zero_less_power, simp)
  also have "\<dots> = (2::int) ^ (53 + 1074)" by (rule power_add [symmetric])
  also have "\<dots> = (2::int) ^ 1127" by (simp del: power_numeral)
  also have "\<dots> < 2 ^ 2098" by (rule power_strict_increasing) simp_all
  finally have "\<not> 2 ^ 2098 \<le> n * 2 ^ 1074" by (simp del: power_numeral)
  moreover have "\<not> n * 2 ^ 1074 < 0"
    using assms(1) by (simp del: power_numeral add: mult_less_0_iff)
  ultimately show ?thesis
    unfolding d_of_int_def round_quot_def Let_def r by (simp only: if_False)
qed

lemma at_least_dpos: "at_least j d \<Longrightarrow> dpos d"
proof (cases d)
  case (DFin m)
  assume "at_least j d"
  with DFin have "2 ^ j \<le> m" by (simp add: at_least_def)
  moreover have "(0::int) < 2 ^ j" by simp
  ultimately have "0 < m" by (rule less_le_trans [rotated])
  with DFin show ?thesis by simp
qed (simp_all add: at_least_def)

lemma at_most_zero_not_dpos: "at_most_zero d \<Longrightarrow> \<not> dpos d"
  by (cases d) (simp_all add: at_most_zero_def)

lemma dpos_round_quot_1: "dpos (round_quot p 1) \<longleftrightarrow> 0 < p"
proof (cases "0 < p")
  case True
  then have "2 ^ 0 * 1 \<le> p" by simp
  then have "at_least 0 (round_quot p 1)" by (rule round_quot_at_least [rotated]) simp
  with True show ?thesis by (simp add: at_least_dpos)
next
  case False
  then have "p \<le> 0" by simp
  then have "at_most_zero (round_quot p 1)" by (rule round_quot_nonpos)
  with False show ?thesis by (simp add: at_most_zero_not_dpos)
qed

lemma ddiv_ratio:
  assumes "0 \<le> a" and "a \<le> b" and "0 < b"
  shows "\<exists>m. ddiv (DFin a) (DFin b) = DFin m \<and> 0 \<le> m \<and> m \<le> 2 ^ 1074 \<and>
             (\<forall>lo. 2 ^ lo * b \<le> a * 2 ^ 1074 \<longrightarrow> 2 ^ lo \<le> m)"
proof -
  have d: "ddiv (DFin a) (DFin b) = round_quot (a * 2 ^ 1074) b"
    using assms(3) by (simp del: power_numeral)
  have p: "0 \<le> a * 2 ^ 1074" using assms(1) by (simp del: power_numeral)
  have "a * 2 ^ 1074 \<le> b * 2 ^ 1074"
    using assms(2) by (rule mult_right_mono) simp
  then have le: "a * 2 ^ 1074 \<le> 2 ^ 1074 * b" by (simp only: mult.commute)
  from round_quot_fin [OF assms(3) p le] show ?thesis unfolding d by simp
qed
subsection \<open>Ranked search\<close>

text \<open>\<^verbatim>\<open>indexOf\<close> is \<open>-1\<close> exactly when the query does not occur; otherwise it is the first
  position where the query is a prefix of the rest, so the match fits into the text.\<close>

lemma js_indexOf_absent: "\<not> sublist q t \<Longrightarrow> js_indexOf t q = - 1"
  by (induction t) (auto simp: sublist_Cons_right Let_def)

lemma js_indexOf_present:
  "sublist q t \<Longrightarrow> 0 \<le> js_indexOf t q \<and> nat (js_indexOf t q) + length q \<le> length t"
proof (induction t)
  case Nil
  then show ?case by simp
next
  case (Cons c cs)
  show ?case
  proof (cases "prefix q (c # cs)")
    case True
    then have "length q \<le> length (c # cs)" by (rule prefix_length_le)
    with True show ?thesis by simp
  next
    case False
    with Cons.prems have "sublist q cs" by (simp add: sublist_Cons_right)
    from Cons.IH [OF this] False show ?thesis by (simp add: Let_def nat_add_distrib)
  qed
qed

lemma js_indexOf_first:
  "js_indexOf t q = int i \<Longrightarrow> prefix q (drop i t) \<and> (\<forall>j<i. \<not> prefix q (drop j t))"
proof (induction t arbitrary: i)
  case Nil
  then show ?case by (simp split: if_splits)
next
  case (Cons c cs)
  show ?case
  proof (cases "prefix q (c # cs)")
    case True
    with Cons.prems show ?thesis by simp
  next
    case False
    with Cons.prems obtain i' where i: "i = Suc i'" and rec: "js_indexOf cs q = int i'"
      by (cases i) (auto simp: Let_def split: if_splits)
    from Cons.IH [OF rec] have "prefix q (drop i' cs)" and "\<forall>j<i'. \<not> prefix q (drop j cs)"
      by blast+
    with False i show ?thesis by (auto simp: less_Suc_eq_0_disj)
  qed
qed

text \<open>
  The score of a text shorter than \<open>2\<^sup>5\<^sup>3\<close> that contains the non-empty query: the index
  and the lengths convert exactly, the position score lies in \<open>[0, 1]\<close>, the length
  score in \<open>[2\<^sup>-\<^sup>5\<^sup>3, 1]\<close>, and their rounded mean in \<open>[2\<^sup>-\<^sup>5\<^sup>4, 1]\<close>.
\<close>

lemma two_powers:
  "(2::int) ^ 1075 = 2 * 2 ^ 1074"
  "(2::int) ^ 1021 * 2 ^ 53 = 2 ^ 1074"
  "(2::int) ^ 1020 * 2 ^ 1075 = 2 ^ 1021 * 2 ^ 1074"
proof -
  have "(2::int) ^ Suc 1074 = 2 * 2 ^ 1074" by (rule power_Suc)
  then show "(2::int) ^ 1075 = 2 * 2 ^ 1074" by (simp del: power_numeral power_Suc)
  have "(2::int) ^ (1021 + 53) = 2 ^ 1021 * 2 ^ 53" by (rule power_add)
  then show "(2::int) ^ 1021 * 2 ^ 53 = 2 ^ 1074" by (simp del: power_numeral)
  have "(2::int) ^ (1020 + 1075) = 2 ^ 1020 * 2 ^ 1075" by (rule power_add)
  moreover have "(2::int) ^ (1021 + 1074) = 2 ^ 1021 * 2 ^ 1074" by (rule power_add)
  ultimately show "(2::int) ^ 1020 * 2 ^ 1075 = 2 ^ 1021 * 2 ^ 1074" by (simp del: power_numeral)
qed

lemma calculateMatchScore_bounds:
  assumes "sublist q t" and "q \<noteq> []" and "length t < 2 ^ 53"
  shows "\<exists>h. calculateMatchScore t q = DFin h \<and> 2 ^ 1020 \<le> h \<and> h \<le> 2 ^ 1074"
proof -
  define U :: int where "U = 2 ^ 1074"
  define i where "i = js_indexOf t q"
  define n where "n = int (length t)"
  define l where "l = int (length q)"
  have U: "0 < U" by (simp add: U_def)
  from js_indexOf_present [OF assms(1)]
  have i0: "0 \<le> i" and fits: "nat i + length q \<le> length t" by (simp_all add: i_def)
  from assms(2) have l1: "1 \<le> l" by (cases q) (simp_all add: l_def)
  from fits i0 have iln: "i + l \<le> n" by (simp add: l_def n_def)
  from assms(3) have n53: "n < 2 ^ 53" by (simp add: n_def)
  from iln l1 i0 have n0: "0 < n" and i_le: "i \<le> n" and l_le: "l \<le> n" by linarith+
  from i_le n53 have i53: "i < 2 ^ 53" by (rule le_less_trans)
  from l_le n53 have l53: "l < 2 ^ 53" by (rule le_less_trans)
  have di: "d_of_int i = DFin (i * U)" unfolding U_def using i0 i53 by (rule d_of_int_exact)
  have dn: "d_of_int n = DFin (n * U)" unfolding U_def using n0 n53
    by (intro d_of_int_exact) simp_all
  have dl: "d_of_int l = DFin (l * U)" unfolding U_def using l1 l53
    by (intro d_of_int_exact) simp_all
  have nU: "0 < n * U" using n0 U by simp
  have "0 \<le> i * U" "i * U \<le> n * U" using i0 i_le U by (simp_all add: mult_right_mono)
  from ddiv_ratio [OF this nU] obtain m1
    where m1: "ddiv (DFin (i * U)) (DFin (n * U)) = DFin m1" "0 \<le> m1" "m1 \<le> U"
    unfolding U_def by blast
  have "0 \<le> U - m1" "U - m1 \<le> 2 ^ 1074 * 1" using m1(2,3) by (simp_all add: U_def)
  from round_quot_fin [OF _ this] obtain m2
    where m2: "round_quot (U - m1) 1 = DFin m2" "0 \<le> m2" "m2 \<le> U"
    unfolding U_def by auto
  have ps: "dsub d_one (DFin m1) = DFin m2"
    using m2(1) by (simp add: dsub_def d_one_def U_def del: power_numeral)
  have "0 \<le> l * U" "l * U \<le> n * U" using l1 l_le U by (simp_all add: mult_right_mono)
  from ddiv_ratio [OF this nU] obtain m3
    where m3: "ddiv (DFin (l * U)) (DFin (n * U)) = DFin m3" "0 \<le> m3" "m3 \<le> U"
      and m3lo: "\<And>lo. 2 ^ lo * (n * U) \<le> l * U * U \<Longrightarrow> 2 ^ lo \<le> m3"
    unfolding U_def by blast
  have "2 ^ 1021 * (n * U) \<le> 2 ^ 1021 * (2 ^ 53 * U)"
    using n53 U by (intro mult_left_mono mult_right_mono) simp_all
  also have "\<dots> = (2 ^ 1021 * 2 ^ 53) * U" by (simp only: mult.assoc)
  also have "\<dots> = 1 * U * U" by (simp only: two_powers(2) U_def mult_1)
  also have "\<dots> \<le> l * U * U" using l1 U by (intro mult_right_mono) simp_all
  finally have m3lo': "2 ^ 1021 \<le> m3" by (rule m3lo)
  have sum_lo: "(2::int) ^ 1021 * 1 \<le> m2 + m3" using m3lo' m2(2) by simp
  have "0 \<le> m2 + m3" "m2 + m3 \<le> 2 ^ 1075 * 1"
    using m2(2,3) m3(2,3) by (simp_all add: two_powers(1) U_def del: power_numeral)
  from round_quot_fin [OF _ this] sum_lo obtain m4
    where m4: "round_quot (m2 + m3) 1 = DFin m4" "0 \<le> m4" "m4 \<le> 2 ^ 1075" "2 ^ 1021 \<le> m4"
    by (auto simp del: power_numeral)
  have sm: "dadd (DFin m2) (DFin m3) = DFin m4" using m4(1) by simp
  have hv: "ddiv (DFin m4) d_two = round_quot (m4 * U) (2 ^ 1075)"
    by (simp add: d_two_def U_def del: power_numeral)
  have "m4 * U \<le> 2 ^ 1075 * U" using m4(3) U by (intro mult_right_mono) simp_all
  then have hi: "m4 * U \<le> 2 ^ 1074 * 2 ^ 1075" by (simp only: U_def mult.commute)
  have "2 ^ 1020 * 2 ^ 1075 = 2 ^ 1021 * U" by (simp only: two_powers(3) U_def)
  also have "\<dots> \<le> m4 * U" using m4(4) U by (intro mult_right_mono) simp_all
  finally have lo: "2 ^ 1020 * 2 ^ 1075 \<le> m4 * U" .
  have "0 \<le> m4 * U" using m4(2) U by simp
  from round_quot_fin [OF _ this hi] lo obtain h
    where h: "round_quot (m4 * U) (2 ^ 1075) = DFin h" "h \<le> 2 ^ 1074" "2 ^ 1020 \<le> h"
    by (auto simp del: power_numeral)
  have "js_indexOf t q \<noteq> - 1" using i0 by (simp add: i_def)
  then have "calculateMatchScore t q =
      ddiv (dadd (dsub d_one (ddiv (d_of_int i) (d_of_int n))) (ddiv (d_of_int l) (d_of_int n)))
        d_two"
    by (simp add: calculateMatchScore_def Let_def i_def n_def l_def)
  also have "\<dots> = DFin h" by (simp only: di dn dl m1(1) ps m3(1) sm hv h(1))
  finally show ?thesis using h(2,3) by blast
qed

text \<open>The product of a score in \<open>[2\<^sup>-\<^sup>5\<^sup>4, 1]\<close> with a weight of at least \<open>2\<^sup>-\<^sup>9\<^sup>0\<^sup>0\<close> is at least
  \<open>2\<^sup>-\<^sup>9\<^sup>5\<^sup>4\<close>; sums of such products are, and so is their mean over fewer than \<open>2\<^sup>5\<^sup>3\<close>
  keys up to a factor \<open>2\<^sup>-\<^sup>5\<^sup>3\<close>. With a weight that is at most 0 all of them are at most 0.\<close>

lemma ddiv_pos: "0 < b \<Longrightarrow> ddiv (DFin a) (DFin b) = round_quot (a * 2 ^ 1074) b"
  by (simp del: power_numeral)

lemma dmul_at_least:
  assumes "2 ^ 1020 \<le> h" and "at_least 174 w"
  shows "at_least 120 (dmul (DFin h) w)"
proof (cases w)
  case DNaN
  with assms(2) show ?thesis by (simp add: at_least_def)
next
  case (DInf s)
  have "(0::int) < 2 ^ 1020" by simp
  from this assms(1) have "0 < h" by (rule less_le_trans)
  with DInf assms(2) show ?thesis by (simp add: at_least_def)
next
  case (DFin b)
  with assms(2) have b: "2 ^ 174 \<le> b" by (simp add: at_least_def del: power_numeral)
  have "(2::int) ^ (120 + 1074) = 2 ^ 120 * 2 ^ 1074" by (rule power_add)
  moreover have "(2::int) ^ (1020 + 174) = 2 ^ 1020 * 2 ^ 174" by (rule power_add)
  ultimately have "(2::int) ^ 120 * 2 ^ 1074 = 2 ^ 1020 * 2 ^ 174"
    by (simp del: power_numeral)
  also have "\<dots> \<le> h * b" using assms(1) b by (intro mult_mono) simp_all
  finally have "at_least 120 (round_quot (h * b) (2 ^ 1074))"
    by (intro round_quot_at_least) simp_all
  with DFin show ?thesis by (simp del: power_numeral)
qed

lemma dmul_at_most_zero:
  assumes "0 < h" and "at_most_zero w" and "\<not> dfalsy w"
  shows "at_most_zero (dmul (DFin h) w)"
proof (cases w)
  case DNaN
  with assms(2) show ?thesis by (simp add: at_most_zero_def)
next
  case (DInf s)
  with assms show ?thesis by (simp add: at_most_zero_def)
next
  case (DFin b)
  with assms(2) have "b \<le> 0" by (simp add: at_most_zero_def)
  with assms(1) have "h * b \<le> 0" by (simp add: mult_le_0_iff)
  then have "at_most_zero (round_quot (h * b) (2 ^ 1074))" by (rule round_quot_nonpos)
  with DFin show ?thesis by (simp del: power_numeral)
qed

lemma dadd_at_least:
  assumes "acc = DFin 0 \<or> at_least j acc" and "at_least j x"
  shows "at_least j (dadd acc x)"
proof (cases acc)
  case DNaN
  with assms(1) show ?thesis by (simp add: at_least_def)
next
  case (DInf s)
  with assms show ?thesis by (cases x) (simp_all add: at_least_def)
next
  case a: (DFin a)
  show ?thesis
  proof (cases x)
    case DNaN
    with assms(2) show ?thesis by (simp add: at_least_def)
  next
    case (DInf t)
    with a assms(2) show ?thesis by (simp add: at_least_def)
  next
    case (DFin b)
    have "0 \<le> a"
      using assms(1)
    proof
      assume "acc = DFin 0"
      with a show ?thesis by simp
    next
      assume "at_least j acc"
      with a have "2 ^ j \<le> a" by (simp add: at_least_def)
      moreover have "(0::int) \<le> 2 ^ j" by simp
      ultimately show ?thesis by (rule order_trans [rotated])
    qed
    moreover from DFin assms(2) have "2 ^ j \<le> b" by (simp add: at_least_def)
    ultimately have "2 ^ j * 1 \<le> a + b" by simp
    then have "at_least j (round_quot (a + b) 1)" by (intro round_quot_at_least) simp_all
    with a DFin show ?thesis by simp
  qed
qed

lemma dadd_at_most_zero:
  assumes "at_most_zero acc" and "at_most_zero x"
  shows "at_most_zero (dadd acc x)"
proof (cases acc)
  case DNaN
  with assms(1) show ?thesis by (simp add: at_most_zero_def)
next
  case (DInf s)
  with assms show ?thesis by (cases x) (simp_all add: at_most_zero_def)
next
  case a: (DFin a)
  show ?thesis
  proof (cases x)
    case DNaN
    with assms(2) show ?thesis by (simp add: at_most_zero_def)
  next
    case (DInf t)
    with a assms(2) show ?thesis by (simp add: at_most_zero_def)
  next
    case (DFin b)
    with a assms have "a + b \<le> 0" by (simp add: at_most_zero_def)
    then have "at_most_zero (round_quot (a + b) 1)" by (rule round_quot_nonpos)
    with a DFin show ?thesis by simp
  qed
qed

lemma foldl_dadd_at_least:
  "at_least j acc \<Longrightarrow> list_all (at_least j) xs \<Longrightarrow> at_least j (foldl dadd acc xs)"
  by (induction xs arbitrary: acc) (simp_all add: dadd_at_least)

lemma foldl_dadd_at_most_zero:
  "at_most_zero acc \<Longrightarrow> list_all at_most_zero xs \<Longrightarrow> at_most_zero (foldl dadd acc xs)"
  by (induction xs arbitrary: acc) (simp_all add: dadd_at_most_zero)

lemma total_at_least:
  assumes "xs \<noteq> []" and "list_all (at_least j) xs"
  shows "at_least j (foldl dadd (DFin 0) xs)"
proof (cases xs)
  case Nil
  with assms(1) show ?thesis by simp
next
  case (Cons x xs')
  with assms(2) have "at_least j (dadd (DFin 0) x)" by (intro dadd_at_least) simp_all
  with Cons assms(2) show ?thesis by (simp add: foldl_dadd_at_least del: dadd.simps)
qed

lemma mean_at_least:
  assumes "at_least 120 tot" and "0 < c" and "c < 2 ^ 53"
  shows "at_least 67 (ddiv tot (d_of_int (int c)))"
proof -
  define U :: int where "U = 2 ^ 1074"
  have U: "0 < U" by (simp add: U_def)
  have c: "0 < int c" "int c < 2 ^ 53" using assms(2,3) by simp_all
  then have dc: "d_of_int (int c) = DFin (int c * U)"
    unfolding U_def by (intro d_of_int_exact) simp_all
  have cU: "0 < int c * U" using c(1) U by simp
  show ?thesis
  proof (cases tot)
    case DNaN
    with assms(1) show ?thesis by (simp add: at_least_def)
  next
    case (DInf s)
    with assms(1) cU show ?thesis by (simp add: dc at_least_def)
  next
    case (DFin t)
    with assms(1) have t: "2 ^ 120 \<le> t" by (simp add: at_least_def del: power_numeral)
    have "(2::int) ^ (67 + 53) = 2 ^ 67 * 2 ^ 53" by (rule power_add)
    then have p: "(2::int) ^ 67 * 2 ^ 53 = 2 ^ 120" by (simp del: power_numeral)
    have "2 ^ 67 * int c \<le> 2 ^ 67 * 2 ^ 53" using c(2) by (intro mult_left_mono) simp_all
    also have "\<dots> \<le> t" using t by (simp only: p)
    finally have "2 ^ 67 * int c * U \<le> t * U" using U by (intro mult_right_mono) simp_all
    then have "2 ^ 67 * (int c * U) \<le> t * U" by (simp only: mult.assoc)
    then have "at_least 67 (round_quot (t * U) (int c * U))"
      using cU by (intro round_quot_at_least)
    moreover have "ddiv (DFin t) (DFin (int c * U)) = round_quot (t * U) (int c * U)"
      unfolding U_def by (rule ddiv_pos [OF cU [unfolded U_def]])
    ultimately show ?thesis by (simp only: DFin dc)
  qed
qed

lemma mean_at_most_zero:
  assumes "at_most_zero tot" and "0 < c" and "c < 2 ^ 53"
  shows "at_most_zero (ddiv tot (d_of_int (int c)))"
proof -
  define U :: int where "U = 2 ^ 1074"
  have U: "0 < U" by (simp add: U_def)
  have c: "0 < int c" "int c < 2 ^ 53" using assms(2,3) by simp_all
  then have dc: "d_of_int (int c) = DFin (int c * U)"
    unfolding U_def by (intro d_of_int_exact) simp_all
  have cU: "0 < int c * U" using c(1) U by simp
  show ?thesis
  proof (cases tot)
    case DNaN
    with assms(1) show ?thesis by (simp add: at_most_zero_def)
  next
    case (DInf s)
    with assms(1) cU show ?thesis by (simp add: dc at_most_zero_def)
  next
    case (DFin t)
    with assms(1) have "t \<le> 0" by (simp add: at_most_zero_def)
    with U have "t * U \<le> 0" by (simp add: mult_le_0_iff)
    then have "at_most_zero (round_quot (t * U) (int c * U))" by (rule round_quot_nonpos)
    moreover have "ddiv (DFin t) (DFin (int c * U)) = round_quot (t * U) (int c * U)"
      unfolding U_def by (rule ddiv_pos [OF cU [unfolded U_def]])
    ultimately show ?thesis by (simp only: DFin dc)
  qed
qed

text \<open>The loop over the key-map adds, for each key whose text contains the query, the
  product of the match score and the weight factor, and counts the key.\<close>

lemma rank_step_matching:
  "rank_step B opts nq item (tot, cnt) (k, path) =
     (case resolved_text B (caseSensitive opts) item path of
        None \<Rightarrow> (tot, cnt)
      | Some t \<Rightarrow> if sublist nq t
                   then (dadd tot (dmul (calculateMatchScore t nq) (weight_factor opts k)),
                         cnt + 1)
                   else (tot, cnt))"
  unfolding rank_step_def resolved_text_def by (simp add: Let_def js_includes_def)

lemma foldl_rank_step:
  "foldl (rank_step B opts nq item) (tot, cnt) ks =
     (let ms = concat (map (\<lambda>(k, path).
                  case resolved_text B (caseSensitive opts) item path of
                    None \<Rightarrow> []
                  | Some t \<Rightarrow> if sublist nq t then [(k, t)] else []) ks)
      in (foldl dadd tot
            (map (\<lambda>kt. dmul (calculateMatchScore (snd kt) nq) (weight_factor opts (fst kt))) ms),
          cnt + length ms))"
proof (induction ks arbitrary: tot cnt)
  case Nil
  show ?case by simp
next
  case (Cons e ks)
  obtain k path where e: "e = (k, path)" by (cases e)
  show ?case
    unfolding e
    by (cases "resolved_text B (caseSensitive opts) item path")
       (simp_all add: rank_step_matching Cons.IH Let_def del: dadd.simps dmul.simps)
qed

lemma rank_item_fold:
  shows "r_item (rank_item B opts nq item) = item"
    and "r_score (rank_item B opts nq item) =
           (if matching_keys B opts nq item = [] then DFin 0
            else ddiv (foldl dadd (DFin 0)
                         (map (\<lambda>kt. dmul (calculateMatchScore (snd kt) nq)
                                         (weight_factor opts (fst kt)))
                            (matching_keys B opts nq item)))
                      (d_of_int (int (length (matching_keys B opts nq item)))))"
proof -
  have fold: "foldl (rank_step B opts nq item) (DFin 0, 0) (keys opts) =
      (foldl dadd (DFin 0)
         (map (\<lambda>kt. dmul (calculateMatchScore (snd kt) nq) (weight_factor opts (fst kt)))
            (matching_keys B opts nq item)),
       length (matching_keys B opts nq item))"
    using foldl_rank_step [of B opts nq item "DFin 0" 0 "keys opts"]
    by (simp add: matching_keys_def Let_def)
  show "r_item (rank_item B opts nq item) = item"
    by (simp add: rank_item_def fold)
  show "r_score (rank_item B opts nq item) =
           (if matching_keys B opts nq item = [] then DFin 0
            else ddiv (foldl dadd (DFin 0)
                         (map (\<lambda>kt. dmul (calculateMatchScore (snd kt) nq)
                                         (weight_factor opts (fst kt)))
                            (matching_keys B opts nq item)))
                      (d_of_int (int (length (matching_keys B opts nq item)))))"
    by (simp add: rank_item_def fold)
qed

lemma matching_keys_entry:
  assumes "(k, t) \<in> set (matching_keys B opts nq item)"
  shows "sublist nq t" and "\<exists>path. (k, path) \<in> set (keys opts)"
  using assms
  by (auto simp: matching_keys_def split: option.splits if_splits)

lemma length_matching_keys: "length (matching_keys B opts nq item) \<le> length (keys opts)"
proof -
  have "length (concat (map (\<lambda>(k, path).
                  case resolved_text B cs item path of
                    None \<Rightarrow> []
                  | Some t \<Rightarrow> if sublist nq t then [(k, t)] else []) ks)) \<le> length ks"
    for cs and ks :: "(string \<times> js_path) list"
    by (induction ks) (auto split: option.splits)
  then show ?thesis by (simp add: matching_keys_def)
qed

text \<open>A record without a matching key has the score 0 and is dropped.\<close>

lemma rank_item_no_match:
  "matching_keys B opts nq item = [] \<Longrightarrow> r_score (rank_item B opts nq item) = DFin 0"
  by (simp add: rank_item_fold(2))

text \<open>With sane weights the product for a matching key is the specification's score of
  the key, and at least \<open>2\<^sup>-\<^sup>9\<^sup>5\<^sup>4\<close>.\<close>

lemma weight_factor_sane:
  assumes "sane_weight opts (k, path)"
  shows "weight_factor opts k = (case weights opts k of Some w \<Rightarrow> w | None \<Rightarrow> d_one)"
    and "at_least 174 (case weights opts k of Some w \<Rightarrow> w | None \<Rightarrow> d_one)"
proof -
  have one: "at_least 174 d_one"
  proof -
    have "(2::int) ^ 174 \<le> 2 ^ 1074" by (rule power_increasing) simp_all
    then show ?thesis by (simp add: at_least_def d_one_def del: power_numeral)
  qed
  have nf: "\<not> dfalsy w" if "at_least 174 w" for w
    using at_least_dpos [OF that] by (cases w) simp_all
  show "weight_factor opts k = (case weights opts k of Some w \<Rightarrow> w | None \<Rightarrow> d_one)"
    using assms nf by (auto simp: weight_factor_def sane_weight_def split: option.splits)
  show "at_least 174 (case weights opts k of Some w \<Rightarrow> w | None \<Rightarrow> d_one)"
    using assms one by (auto simp: sane_weight_def split: option.splits)
qed

lemma key_score_sane:
  assumes "nq \<noteq> []" and "sublist nq t" and "length t < 2 ^ 53"
    and "sane_weight opts (k, path)"
  shows "dmul (calculateMatchScore t nq) (weight_factor opts k) = spec_key_score opts nq (k, t)"
    and "at_least 120 (dmul (calculateMatchScore t nq) (weight_factor opts k))"
proof -
  from js_indexOf_present [OF assms(2)] have "js_indexOf t nq \<noteq> - 1" by simp
  then show "dmul (calculateMatchScore t nq) (weight_factor opts k) =
      spec_key_score opts nq (k, t)"
    by (simp add: calculateMatchScore_def Let_def spec_key_score_def
          weight_factor_sane(1) [OF assms(4)])
  from calculateMatchScore_bounds [OF assms(2,1,3)] obtain h
    where h: "calculateMatchScore t nq = DFin h" "2 ^ 1020 \<le> h" by blast
  from dmul_at_least [OF h(2) weight_factor_sane(2) [OF assms(4)]]
  show "at_least 120 (dmul (calculateMatchScore t nq) (weight_factor opts k))"
    by (simp only: h(1) weight_factor_sane(1) [OF assms(4)])
qed

lemma rank_item_sane:
  assumes "nq \<noteq> []" and "list_all (sane_weight opts) (keys opts)"
    and "length (keys opts) < 2 ^ 53" and "short_texts B opts nq item"
    and "matching_keys B opts nq item \<noteq> []"
  shows "r_score (rank_item B opts nq item) = spec_score B opts nq item"
    and "at_least 67 (r_score (rank_item B opts nq item))"
proof -
  let ?ms = "matching_keys B opts nq item"
  let ?f = "\<lambda>kt. dmul (calculateMatchScore (snd kt) nq) (weight_factor opts (fst kt))"
  have each: "?f kt = spec_key_score opts nq kt \<and> at_least 120 (?f kt)" if "kt \<in> set ?ms" for kt
  proof -
    obtain k t where kt: "kt = (k, t)" by (cases kt)
    from that kt matching_keys_entry [of k t B opts nq item]
    obtain path where sub: "sublist nq t" and key: "(k, path) \<in> set (keys opts)" by blast
    from key assms(2) have sane: "sane_weight opts (k, path)" by (auto simp: list_all_iff)
    from that kt assms(4) have short: "length t < 2 ^ 53"
      by (auto simp: short_texts_def list_all_iff)
    from key_score_sane [OF assms(1) sub short sane] show ?thesis by (simp add: kt)
  qed
  then have maps: "map ?f ?ms = map (spec_key_score opts nq) ?ms" by simp
  from each have "at_least 120 (?f kt)" if "kt \<in> set ?ms" for kt using that by blast
  then have "list_all (at_least 120) (map ?f ?ms)" by (simp add: list_all_iff)
  with assms(5) have tot: "at_least 120 (foldl dadd (DFin 0) (map ?f ?ms))"
    by (intro total_at_least) simp_all
  have cnt: "0 < length ?ms" "length ?ms < 2 ^ 53"
    using assms(3,5) length_matching_keys [of B opts nq item] by simp_all
  have score: "r_score (rank_item B opts nq item) =
      ddiv (foldl dadd (DFin 0) (map ?f ?ms)) (d_of_int (int (length ?ms)))"
    using assms(5) by (simp add: rank_item_fold(2))
  show "r_score (rank_item B opts nq item) = spec_score B opts nq item"
    unfolding score spec_score_def maps ..
  show "at_least 67 (r_score (rank_item B opts nq item))"
    unfolding score using tot cnt by (rule mean_at_least)
qed

text \<open>With weights below 0 the score of a record is never positive.\<close>

lemma rank_item_negative_weights:
  assumes "nq \<noteq> []"
    and "list_all (\<lambda>entry. case weights opts (fst entry) of
                              Some w \<Rightarrow> at_most_zero w \<and> \<not> dfalsy w
                            | None \<Rightarrow> False) (keys opts)"
    and "length (keys opts) < 2 ^ 53" and "short_texts B opts nq item"
  shows "\<not> dpos (r_score (rank_item B opts nq item))"
proof (cases "matching_keys B opts nq item = []")
  case True
  then show ?thesis by (simp add: rank_item_no_match)
next
  case False
  let ?ms = "matching_keys B opts nq item"
  let ?f = "\<lambda>kt. dmul (calculateMatchScore (snd kt) nq) (weight_factor opts (fst kt))"
  have each: "at_most_zero (?f kt)" if "kt \<in> set ?ms" for kt
  proof -
    obtain k t where kt: "kt = (k, t)" by (cases kt)
    from that kt matching_keys_entry [of k t B opts nq item]
    obtain path where sub: "sublist nq t" and key: "(k, path) \<in> set (keys opts)" by blast
    from key assms(2) obtain w where w: "weights opts k = Some w" "at_most_zero w" "\<not> dfalsy w"
      by (auto simp: list_all_iff split: option.splits)
    from that kt assms(4) have short: "length t < 2 ^ 53"
      by (auto simp: short_texts_def list_all_iff)
    from calculateMatchScore_bounds [OF sub assms(1) short] obtain h
      where h: "calculateMatchScore t nq = DFin h" "2 ^ 1020 \<le> h" by blast
    have "(0::int) < 2 ^ 1020" by simp
    from this h(2) have "0 < h" by (rule less_le_trans)
    from dmul_at_most_zero [OF this w(2,3)] show ?thesis
      by (simp add: kt h(1) weight_factor_def w del: dmul.simps)
  qed
  then have "list_all at_most_zero (map ?f ?ms)" by (simp add: list_all_iff)
  then have tot: "at_most_zero (foldl dadd (DFin 0) (map ?f ?ms))"
    by (intro foldl_dadd_at_most_zero) (simp_all add: at_most_zero_def)
  have cnt: "0 < length ?ms" "length ?ms < 2 ^ 53"
    using assms(3) False length_matching_keys [of B opts nq item] by simp_all
  have score: "r_score (rank_item B opts nq item) =
      ddiv (foldl dadd (DFin 0) (map ?f ?ms)) (d_of_int (int (length ?ms)))"
    using False by (simp add: rank_item_fold(2))
  have "at_most_zero (r_score (rank_item B opts nq item))"
    unfolding score using tot cnt by (rule mean_at_most_zero)
  then show ?thesis by (rule at_most_zero_not_dpos)
qed

text \<open>
  On positive scores the sign of \<^verbatim>\<open>b.score - a.score\<close> orders the results by descending
  score: the difference of two doubles is positive exactly when the first is the larger,
  \<^verbatim>\<open>Infinity - Infinity\<close> is \<^verbatim>\<open>NaN\<close> and counts as equal. So the sort is the stable
  sort by the key \<open>dkey\<close>.
\<close>

lemma dsub_sign:
  assumes "dpos a" and "dpos b"
  shows "dpos (dsub b a) \<longleftrightarrow> \<not> dkey a \<le> dkey b"
proof (cases a)
  case DNaN
  with assms(1) show ?thesis by simp
next
  case a: (DInf s)
  with assms show ?thesis by (cases b) (simp_all add: dsub_def dkey_def)
next
  case a: (DFin x)
  show ?thesis
  proof (cases b)
    case DNaN
    with assms(2) show ?thesis by simp
  next
    case (DInf t)
    with a assms show ?thesis by (simp add: dsub_def dkey_def)
  next
    case (DFin y)
    have "dsub (DFin y) (DFin x) = round_quot (y + - x) 1" by (simp add: dsub_def)
    then have "dpos (dsub (DFin y) (DFin x)) \<longleftrightarrow> 0 < y + - x"
      by (simp only: dpos_round_quot_1)
    with a DFin show ?thesis by (simp add: dkey_def) linarith
  qed
qed

lemma dkey_dle:
  assumes "dpos a" and "dpos b"
  shows "dkey a \<le> dkey b \<longleftrightarrow> dle b a"
  using assms by (cases a; cases b) (simp_all add: dkey_def)

lemma dkey_inj:
  assumes "dpos a" and "dpos b"
  shows "dkey a = dkey b \<longleftrightarrow> a = b"
  using assms by (cases a; cases b) (simp_all add: dkey_def)

lemma insert_by_insort_key:
  assumes "\<forall>y\<in>set ys. dpos (compareFn x y) \<longleftrightarrow> \<not> f x \<le> f y"
  shows "insert_by compareFn x ys = insort_key f x ys"
  using assms by (induction ys) simp_all

lemma sort_by_sort_key:
  assumes "\<forall>x\<in>set xs. \<forall>y\<in>set xs. dpos (compareFn x y) \<longleftrightarrow> \<not> f x \<le> f y"
  shows "sort_by compareFn xs = sort_key f xs"
  using assms
proof (induction xs)
  case Nil
  show ?case by (simp add: sort_by_def)
next
  case (Cons x xs)
  then have IH: "sort_by compareFn xs = sort_key f xs" by simp
  have "insert_by compareFn x (sort_key f xs) = insort_key f x (sort_key f xs)"
    using Cons.prems by (intro insert_by_insort_key) simp
  with IH show ?case by (simp add: sort_by_def)
qed

text \<open>Sorting commutes with a map.\<close>

lemma insort_key_map:
  "insort_key f (g x) (map g ys) = map g (insort_key (\<lambda>y. f (g y)) x ys)"
  by (induction ys) simp_all

lemma sort_key_map: "sort_key f (map g xs) = map g (sort_key (\<lambda>y. f (g y)) xs)"
  by (induction xs) (simp_all add: insort_key_map)

text \<open>The ranked search is the stable sort, by descending score, of the records whose
  score is positive.\<close>

lemma rankedSearch_sorted:
  assumes "query \<noteq> []"
  shows "rankedSearch B data query opts =
           sort_key (\<lambda>item. dkey (ranked_score B opts query item))
             (filter (\<lambda>item. dpos (ranked_score B opts query item)) data)"
proof -
  let ?nq = "normalize_case (caseSensitive opts) query"
  let ?rank = "rank_item B opts ?nq"
  let ?kept = "filter (\<lambda>item. dpos (ranked_score B opts query item)) data"
  let ?cmp = "\<lambda>a b. dsub (r_score b) (r_score a)"
  have kept: "filter (\<lambda>result. dpos (r_score result)) (map ?rank data) = map ?rank ?kept"
    by (simp add: filter_map comp_def ranked_score_def)
  have pos: "dpos (r_score r)" if "r \<in> set (map ?rank ?kept)" for r
    using that by (auto simp: ranked_score_def)
  have "sort_by ?cmp (map ?rank ?kept) = sort_key (\<lambda>r. dkey (r_score r)) (map ?rank ?kept)"
  proof (rule sort_by_sort_key, intro ballI)
    fix x y
    assume "x \<in> set (map ?rank ?kept)" and "y \<in> set (map ?rank ?kept)"
    then have "dpos (r_score x)" and "dpos (r_score y)" by (simp_all only: pos)
    then show "dpos (dsub (r_score y) (r_score x)) \<longleftrightarrow> \<not> dkey (r_score x) \<le> dkey (r_score y)"
      by (rule dsub_sign)
  qed
  also have "\<dots> = map ?rank (sort_key (\<lambda>item. dkey (r_score (?rank item))) ?kept)"
    by (rule sort_key_map)
  finally have "rankedSearch B data query opts =
      map r_item (map ?rank (sort_key (\<lambda>item. dkey (r_score (?rank item))) ?kept))"
    using assms by (simp add: rankedSearch_def Let_def kept)
  also have "\<dots> = sort_key (\<lambda>item. dkey (r_score (?rank item))) ?kept"
    by (simp add: comp_def rank_item_fold(1))
  finally show ?thesis by (simp only: ranked_score_def)
qed

text \<open>
  C3, amended. For every records array, non-empty query and options, \<open>rankedSearch\<close>
  returns exactly the records whose overall score, as the code computes it in double
  precision, is greater than 0; each of them has a key whose normalized resolved value
  contains the normalized query; the result is ordered by non-increasing score, and
  records of equal score keep their original relative order. When every search key
  has a weight of at least \<open>2\<^sup>-\<^sup>9\<^sup>0\<^sup>0\<close> or none, no search key without a weight is the name
  of a member of \<^verbatim>\<open>Object.prototype\<close>, the key-map has fewer than \<open>2\<^sup>5\<^sup>3\<close> entries and the
  matching values are shorter than \<open>2\<^sup>5\<^sup>3\<close>, the score of a record with a matching key is
  the double-precision average over its matching keys of
  \<open>(1 - firstMatchIndex / valueLength + queryLength / valueLength) / 2\<close> times the key's
  weight (default 1) and is greater than 0, so that exactly the records with a matching
  key are returned.
\<close>

theorem C3_amended:
  assumes "query \<noteq> []"
  shows "mset (rankedSearch B data query opts) =
           mset (filter (\<lambda>item. dpos (ranked_score B opts query item)) data) \<and>
         (\<forall>item. dpos (ranked_score B opts query item) \<longrightarrow>
            matching_keys B opts (normalize_case (caseSensitive opts) query) item \<noteq> []) \<and>
         sorted_wrt (\<lambda>a b. dle (ranked_score B opts query b) (ranked_score B opts query a))
           (rankedSearch B data query opts) \<and>
         (\<forall>v. filter (\<lambda>item. ranked_score B opts query item = v)
                 (rankedSearch B data query opts) =
               filter (\<lambda>item. ranked_score B opts query item = v)
                 (filter (\<lambda>item. dpos (ranked_score B opts query item)) data)) \<and>
         (sane_ranking B opts query data \<longrightarrow>
            (\<forall>item\<in>set data.
               matching_keys B opts (normalize_case (caseSensitive opts) query) item \<noteq> [] \<longrightarrow>
                 ranked_score B opts query item =
                   spec_score B opts (normalize_case (caseSensitive opts) query) item \<and>
                 dpos (ranked_score B opts query item)) \<and>
            mset (rankedSearch B data query opts) =
              mset (filter (\<lambda>item. matching_keys B opts
                                      (normalize_case (caseSensitive opts) query) item \<noteq> [])
                      data))"
proof -
  let ?nq = "normalize_case (caseSensitive opts) query"
  let ?S = "ranked_score B opts query"
  let ?kept = "filter (\<lambda>item. dpos (?S item)) data"
  let ?res = "rankedSearch B data query opts"
  from assms have nq: "?nq \<noteq> []" by (simp add: normalize_Nil_iff)
  have eq: "?res = sort_key (\<lambda>item. dkey (?S item)) ?kept"
    using assms by (rule rankedSearch_sorted)
  have a: "mset ?res = mset ?kept"
    unfolding eq by simp
  have b: "\<forall>item. dpos (?S item) \<longrightarrow> matching_keys B opts ?nq item \<noteq> []"
    by (auto simp: ranked_score_def rank_item_no_match)
  have pos: "dpos (?S item)" if "item \<in> set ?res" for item
    using that unfolding eq by simp
  have "sorted (map (\<lambda>item. dkey (?S item)) (sort_key (\<lambda>item. dkey (?S item)) ?kept))"
    by (rule sorted_sort_key)
  then have "sorted_wrt (\<lambda>a b. dkey (?S a) \<le> dkey (?S b)) ?res"
    unfolding eq by (simp add: sorted_map)
  then have c: "sorted_wrt (\<lambda>a b. dle (?S b) (?S a)) ?res"
    by (rule sorted_wrt_mono_rel [rotated]) (simp add: dkey_dle pos)
  have d: "filter (\<lambda>item. ?S item = v) ?res = filter (\<lambda>item. ?S item = v) ?kept" for v
  proof (cases "dpos v")
    case True
    have "filter (\<lambda>item. ?S item = v) ?res = filter (\<lambda>item. dkey (?S item) = dkey v) ?res"
      by (rule filter_cong) (simp_all add: dkey_inj pos True)
    also have "\<dots> = filter (\<lambda>item. dkey (?S item) = dkey v) ?kept"
      unfolding eq by (rule sort_key_stable)
    also have "\<dots> = filter (\<lambda>item. ?S item = v) ?kept"
      by (rule filter_cong) (simp_all add: dkey_inj True)
    finally show ?thesis .
  next
    case False
    have "filter (\<lambda>item. ?S item = v) ?res = []"
      using False pos by (auto simp: filter_empty_conv)
    moreover have "filter (\<lambda>item. ?S item = v) ?kept = []"
      using False by (auto simp: filter_empty_conv)
    ultimately show ?thesis by simp
  qed
  have e: "(\<forall>item\<in>set data. matching_keys B opts ?nq item \<noteq> [] \<longrightarrow>
              ?S item = spec_score B opts ?nq item \<and> dpos (?S item)) \<and>
           mset ?res = mset (filter (\<lambda>item. matching_keys B opts ?nq item \<noteq> []) data)"
    if sane: "sane_ranking B opts query data"
  proof -
    from sane have w: "list_all (sane_weight opts) (keys opts)"
      and k: "length (keys opts) < 2 ^ 53"
      and s: "list_all (short_texts B opts ?nq) data"
      by (simp_all add: sane_ranking_def)
    have m1: "?S item = spec_score B opts ?nq item"
      and m2: "dpos (?S item)"
      if "item \<in> set data" and "matching_keys B opts ?nq item \<noteq> []" for item
    proof -
      from that(1) s have short: "short_texts B opts ?nq item" by (simp add: list_all_iff)
      show "?S item = spec_score B opts ?nq item"
        unfolding ranked_score_def by (rule rank_item_sane(1) [OF nq w k short that(2)])
      show "dpos (?S item)"
        unfolding ranked_score_def
        by (rule at_least_dpos) (rule rank_item_sane(2) [OF nq w k short that(2)])
    qed
    have "?kept = filter (\<lambda>item. matching_keys B opts ?nq item \<noteq> []) data"
    proof (rule filter_cong [OF refl])
      fix item
      assume "item \<in> set data"
      then show "dpos (?S item) = (matching_keys B opts ?nq item \<noteq> [])"
        using b m2 by blast
    qed
    then have "mset ?res = mset (filter (\<lambda>item. matching_keys B opts ?nq item \<noteq> []) data)"
      using a by (simp only:)
    moreover have "\<forall>item\<in>set data. matching_keys B opts ?nq item \<noteq> [] \<longrightarrow>
              ?S item = spec_score B opts ?nq item \<and> dpos (?S item)"
      using m1 m2 by blast
    ultimately show ?thesis by (rule conjI [rotated])
  qed
  have d': "\<forall>v. filter (\<lambda>item. ?S item = v) ?res = filter (\<lambda>item. ?S item = v) ?kept"
    by (rule allI) (rule d)
  have e': "sane_ranking B opts query data \<longrightarrow>
      (\<forall>item\<in>set data. matching_keys B opts ?nq item \<noteq> [] \<longrightarrow>
              ?S item = spec_score B opts ?nq item \<and> dpos (?S item)) \<and>
      mset ?res = mset (filter (\<lambda>item. matching_keys B opts ?nq item \<noteq> []) data)"
    by (rule impI) (rule e)
  show ?thesis by (rule conjI [OF a conjI [OF b conjI [OF c conjI [OF d' e']]]])
qed

text \<open>
  C3 at five products searched by title with weight 2 for the query \<^verbatim>\<open>O\<close>: the options and
  the data are sane, the record without an \<^verbatim>\<open>o\<close> is dropped and the other four are
  returned, by non-increasing score.
\<close>

theorem C3_witness:
  "sane_ranking example_builtins sample_options ''O'' sample_data \<and>
   mset (rankedSearch example_builtins sample_data ''O'' sample_options) =
     mset [product 1 ''Laptop'' ''Electronics'' (JNum (Num 999)),
           product 2 ''Phone'' ''Electronics'' (JNum (Num 599)),
           product 4 ''Book'' ''Books'' (JNum (Num 19)),
           product 5 ''Phone'' ''Electronics'' (JNum (Num 650))] \<and>
   sorted_wrt (\<lambda>a b. dle (ranked_score example_builtins sample_options ''O'' b)
                         (ranked_score example_builtins sample_options ''O'' a))
     (rankedSearch example_builtins sample_data ''O'' sample_options)"
proof -
  have h1: "''O'' \<noteq> []" by simp
  have nq: "normalize_case (caseSensitive sample_options) ''O'' = ''o''"
    by (simp add: sample_options_def default_options_def normalize_case_def toLowerCase_def
          toLowerCase_char_def)
  have ks: "keys sample_options = [(''title'', PathStr ''title'')]"
    and cs: "caseSensitive sample_options = False"
    and ws: "weights sample_options ''title'' = Some d_two"
    by (simp_all add: sample_options_def default_options_def)
  have "(2::int) ^ 174 \<le> 2 ^ 1075" by (rule power_increasing) simp_all
  then have sw: "list_all (sane_weight sample_options) (keys sample_options)"
    by (simp add: ks ws sane_weight_def at_least_def d_two_def del: power_numeral)
  have kl: "length (keys sample_options) < 2 ^ 53" by (simp add: ks)
  have mk: "map (matching_keys example_builtins sample_options ''o'') sample_data =
      [[(''title'', ''laptop'')], [(''title'', ''phone'')], [], [(''title'', ''book'')],
       [(''title'', ''phone'')]]"
    by code_simp
  have "list_all (list_all (\<lambda>kt. length (snd kt) < 2 ^ 53))
          (map (matching_keys example_builtins sample_options ''o'') sample_data)"
    unfolding mk by simp
  then have st: "list_all (short_texts example_builtins sample_options ''o'') sample_data"
    by (simp add: list.pred_map comp_def list_all_iff short_texts_def)
  have sane: "sane_ranking example_builtins sample_options ''O'' sample_data"
    unfolding sane_ranking_def nq using sw kl st by (intro conjI)
  have "map (\<lambda>item. matching_keys example_builtins sample_options ''o'' item \<noteq> []) sample_data =
      [True, True, False, True, True]"
    using mk by (simp add: sample_data_def)
  then have fl: "filter (\<lambda>item. matching_keys example_builtins sample_options ''o'' item \<noteq> [])
        sample_data =
      [product 1 ''Laptop'' ''Electronics'' (JNum (Num 999)),
       product 2 ''Phone'' ''Electronics'' (JNum (Num 599)),
       product 4 ''Book'' ''Books'' (JNum (Num 19)),
       product 5 ''Phone'' ''Electronics'' (JNum (Num 650))]"
    by (simp add: sample_data_def)
  note t = C3_amended [OF h1, of example_builtins sample_data sample_options]
  from t have c: "sorted_wrt (\<lambda>a b. dle (ranked_score example_builtins sample_options ''O'' b)
                         (ranked_score example_builtins sample_options ''O'' a))
     (rankedSearch example_builtins sample_data ''O'' sample_options)"
    by (elim conjE)
  from t sane have "mset (rankedSearch example_builtins sample_data ''O'' sample_options) =
      mset (filter (\<lambda>item. matching_keys example_builtins sample_options ''o'' item \<noteq> [])
              sample_data)"
    unfolding nq by (elim conjE impE) assumption+
  then have e: "mset (rankedSearch example_builtins sample_data ''O'' sample_options) =
     mset [product 1 ''Laptop'' ''Electronics'' (JNum (Num 999)),
           product 2 ''Phone'' ''Electronics'' (JNum (Num 599)),
           product 4 ''Book'' ''Books'' (JNum (Num 19)),
           product 5 ''Phone'' ''Electronics'' (JNum (Num 650))]"
    by (simp only: fl)
  from sane e c show ?thesis by (intro conjI)
qed

text \<open>
  The claim as worded fails for a weight below 0. With the weight -1 for the title, each
  of the four records whose title contains \<^verbatim>\<open>o\<close> has a score below 0 and is dropped by the
  test \<^verbatim>\<open>result.score > 0\<close>: the ranked search returns nothing.
\<close>

theorem C3_counterexample:
  "map (matching_keys example_builtins negative_weight_options ''o'') sample_data =
     [[(''title'', ''laptop'')], [(''title'', ''phone'')], [], [(''title'', ''book'')],
      [(''title'', ''phone'')]] \<and>
   rankedSearch example_builtins sample_data ''O'' negative_weight_options = []"
proof -
  have h1: "''O'' \<noteq> []" by simp
  have nq: "normalize_case (caseSensitive negative_weight_options) ''O'' = ''o''"
    by (simp add: negative_weight_options_def default_options_def normalize_case_def
          toLowerCase_def toLowerCase_char_def)
  have ks: "keys negative_weight_options = [(''title'', PathStr ''title'')]"
    and cs: "caseSensitive negative_weight_options = False"
    and ws: "weights negative_weight_options ''title'' = Some (dneg d_one)"
    by (simp_all add: negative_weight_options_def default_options_def)
  have nw: "list_all (\<lambda>entry. case weights negative_weight_options (fst entry) of
                              Some w \<Rightarrow> at_most_zero w \<and> \<not> dfalsy w
                            | None \<Rightarrow> False) (keys negative_weight_options)"
    by (simp add: ks ws at_most_zero_def d_one_def del: power_numeral)
  have kl: "length (keys negative_weight_options) < 2 ^ 53" by (simp add: ks)
  have mk: "map (matching_keys example_builtins negative_weight_options ''o'') sample_data =
      [[(''title'', ''laptop'')], [(''title'', ''phone'')], [], [(''title'', ''book'')],
       [(''title'', ''phone'')]]"
    by code_simp
  have "list_all (list_all (\<lambda>kt. length (snd kt) < 2 ^ 53))
          (map (matching_keys example_builtins negative_weight_options ''o'') sample_data)"
    unfolding mk by simp
  then have st: "list_all (short_texts example_builtins negative_weight_options ''o'') sample_data"
    by (simp add: list.pred_map comp_def list_all_iff short_texts_def)
  have "\<not> dpos (ranked_score example_builtins negative_weight_options ''O'' item)"
    if "item \<in> set sample_data" for item
  proof -
    from that st have "short_texts example_builtins negative_weight_options ''o'' item"
      by (simp only: list_all_iff)
    then show ?thesis
      unfolding ranked_score_def nq
      by (intro rank_item_negative_weights nw kl) simp_all
  qed
  then have "filter (\<lambda>item. dpos (ranked_score example_builtins negative_weight_options ''O'' item))
      sample_data = []"
    by (simp only: filter_empty_conv) blast
  then have "rankedSearch example_builtins sample_data ''O'' negative_weight_options = []"
    by (simp add: rankedSearch_sorted [OF h1])
  with mk show ?thesis by (intro conjI)
qed
subsection \<open>Highlighting and the input records\<close>

text \<open>
  When every key path is a single segment, the search writes only into the copies it
  allocates: every object of the store that existed before the call is unchanged.
\<close>

lemma split_on_no_separator: "sep \<notin> set s \<Longrightarrow> split_on sep s = [s]"
  by (induction s) auto

lemma setNestedValue_single_segment:
  "CHR ''.'' \<notin> set s \<Longrightarrow>
   setNestedValue h obj (PathStr s) v = (h_set_prop h obj s v, PathStr s)"
  by (simp add: setNestedValue_def split_on_no_separator)

lemma highlight_key_frame:
  assumes "CHR ''.'' \<notin> set s"
  shows "snd (highlight_key B cls cs query item copy h (k, PathStr s)) = (k, PathStr s)"
    and "next_free (fst (highlight_key B cls cs query item copy h (k, PathStr s))) =
         next_free h"
    and "a \<noteq> copy \<Longrightarrow>
         objs (fst (highlight_key B cls cs query item copy h (k, PathStr s))) a = objs h a"
  using assms
  by (simp_all add: highlight_key_def Let_def setNestedValue_single_segment h_set_prop_def)

lemma highlight_keys_frame:
  assumes "\<forall>(k, p) \<in> set ks. \<exists>s. p = PathStr s \<and> CHR ''.'' \<notin> set s"
  shows "snd (highlight_keys B cls cs query item copy h ks) = ks \<and>
         next_free (fst (highlight_keys B cls cs query item copy h ks)) = next_free h \<and>
         (\<forall>a. a \<noteq> copy \<longrightarrow>
            objs (fst (highlight_keys B cls cs query item copy h ks)) a = objs h a)"
  using assms
proof (induction ks arbitrary: h)
  case Nil
  show ?case by simp
next
  case (Cons e ks)
  from Cons.prems obtain k s where e: "e = (k, PathStr s)" and s: "CHR ''.'' \<notin> set s"
    by (cases e) auto
  from Cons.prems have rest: "\<forall>(k, p) \<in> set ks. \<exists>s. p = PathStr s \<and> CHR ''.'' \<notin> set s"
    by simp
  obtain h1 e1 where step: "highlight_key B cls cs query item copy h (k, PathStr s) = (h1, e1)"
    by (cases "highlight_key B cls cs query item copy h (k, PathStr s)")
  from highlight_key_frame [OF s, where B = B and cls = cls and cs = cs and query = query
      and item = item and copy = copy and h = h and k = k] step
  have e1: "e1 = (k, PathStr s)" and nf: "next_free h1 = next_free h"
    and same: "\<And>a. a \<noteq> copy \<Longrightarrow> objs h1 a = objs h a"
    by simp_all
  obtain h2 es where tl: "highlight_keys B cls cs query item copy h1 ks = (h2, es)"
    by (cases "highlight_keys B cls cs query item copy h1 ks")
  from Cons.IH [OF rest, where h = h1] tl
  have es: "es = ks" and nf2: "next_free h2 = next_free h1"
    and same2: "\<And>a. a \<noteq> copy \<Longrightarrow> objs h2 a = objs h1 a"
    by simp_all
  show ?case
    by (simp add: e step tl e1 es nf nf2 same same2)
qed

lemma highlight_item_frame:
  assumes "\<forall>(k, p) \<in> set ks. \<exists>s. p = PathStr s \<and> CHR ''.'' \<notin> set s"
  shows "snd (snd (highlight_item B cls cs query (out, h, ks) item)) = ks \<and>
         next_free h \<le> next_free (fst (snd (highlight_item B cls cs query (out, h, ks) item))) \<and>
         (\<forall>a < next_free h.
            objs (fst (snd (highlight_item B cls cs query (out, h, ks) item))) a = objs h a)"
proof -
  let ?h1 = "h\<lparr> objs := (objs h)(next_free h \<mapsto> props_of h item), next_free := Suc (next_free h) \<rparr>"
  obtain h2 ks' where run: "highlight_keys B cls cs query item (next_free h) ?h1 ks = (h2, ks')"
    by (cases "highlight_keys B cls cs query item (next_free h) ?h1 ks")
  have step: "highlight_item B cls cs query (out, h, ks) item = (out @ [HRef (next_free h)], h2, ks')"
    by (simp add: highlight_item_def alloc_def run)
  from highlight_keys_frame [OF assms, where B = B and cls = cls and cs = cs
      and query = query and item = item and copy = "next_free h" and h = ?h1] run
  have "ks' = ks" and "next_free h2 = Suc (next_free h)"
    and "\<And>a. a \<noteq> next_free h \<Longrightarrow> objs h2 a = objs h a"
    by simp_all
  then show ?thesis unfolding step by auto
qed

lemma foldl_highlight_item_frame:
  assumes "\<forall>(k, p) \<in> set ks. \<exists>s. p = PathStr s \<and> CHR ''.'' \<notin> set s"
  shows "snd (snd (foldl (highlight_item B cls cs query) (out, h, ks) results)) = ks \<and>
         next_free h \<le>
           next_free (fst (snd (foldl (highlight_item B cls cs query) (out, h, ks) results))) \<and>
         (\<forall>a < next_free h.
            objs (fst (snd (foldl (highlight_item B cls cs query) (out, h, ks) results))) a =
              objs h a)"
proof (induction results arbitrary: out h)
  case Nil
  show ?case by simp
next
  case (Cons item results)
  obtain out' h' ks' where step: "highlight_item B cls cs query (out, h, ks) item = (out', h', ks')"
    by (cases "highlight_item B cls cs query (out, h, ks) item")
  from highlight_item_frame [OF assms, where h = h and B = B and cls = cls and cs = cs
      and query = query and out = out and item = item] step
  have ks: "ks' = ks" and le: "next_free h \<le> next_free h'"
    and same: "\<forall>a < next_free h. objs h' a = objs h a"
    by simp_all
  from Cons.IH [where out = out' and h = h'] le same show ?case
    by (auto simp: step ks)
qed

lemma searchWithHighlight_single_segment_frame:
  assumes "\<forall>(k, p) \<in> set ks. \<exists>s. p = PathStr s \<and> CHR ''.'' \<notin> set s"
    and "a < next_free h"
  shows "objs (snd (searchWithHighlight B h data query ks cls cs)) a = objs h a"
  using foldl_highlight_item_frame [OF assms(1), where h = h and B = B and cls = cls and cs = cs
      and query = query and out = "[]"
      and results = "h_searchData B h data query ks cs"] assms(2)
  by (auto simp: searchWithHighlight_def highlight_results_def Let_def split: prod.splits)

text \<open>
  A key path given as an array is used up by the writes: after the laptop has been
  highlighted through \<^verbatim>\<open>['category', 'name']\<close>, the key-map holds \<^verbatim>\<open>['category']\<close>.
\<close>

lemma highlight_array_path_is_popped:
  "snd (snd (highlight_results example_builtins sample_heap [HRef 0] ''elec''
               [(''category'', PathArr [''category'', ''name''])] ''search-highlight'' False)) =
     [(''category'', PathArr [''category''])]"
  by code_simp

text \<open>
  With a top-level key the highlighted text goes into the copy: after searching the
  sample store for \<^verbatim>\<open>lap\<close> in \<^verbatim>\<open>title\<close>, the record (object 0) and its category
  (object 1) are as before and the result is the new object 2.
\<close>

lemma highlight_top_level_key_keeps_input:
  "fst (searchWithHighlight example_builtins sample_heap [HRef 0] ''lap''
          [(''title'', PathStr ''title'')] ''search-highlight'' False) = [HRef 2] \<and>
   objs (snd (searchWithHighlight example_builtins sample_heap [HRef 0] ''lap''
          [(''title'', PathStr ''title'')] ''search-highlight'' False)) 0 = objs sample_heap 0 \<and>
   objs (snd (searchWithHighlight example_builtins sample_heap [HRef 0] ''lap''
          [(''title'', PathStr ''title'')] ''search-highlight'' False)) 1 = objs sample_heap 1 \<and>
   h_get_prop (snd (searchWithHighlight example_builtins sample_heap [HRef 0] ''lap''
          [(''title'', PathStr ''title'')] ''search-highlight'' False)) (HRef 2) ''title'' =
     HStr (span_open ''search-highlight'' @ ''Lap'' @ span_close @ ''top'')"
  by code_simp

text \<open>
  C2 fails on the code for a nested key path. Searching the sample store for \<^verbatim>\<open>elec\<close>
  in \<^verbatim>\<open>category.name\<close> returns the copy (object 2), whose \<^verbatim>\<open>category\<close> is still the
  original's object 1; the highlighted text is written into object 1, so the input record
  now reads the marked-up name where it read \<^verbatim>\<open>Electronics\<close> before.
\<close>

theorem C2_highlight_mutates_nested_input:
  "h_getNestedValue sample_heap (HRef 0) (PathStr ''category.name'') = HStr ''Electronics'' \<and>
   fst (searchWithHighlight example_builtins sample_heap [HRef 0] ''elec''
          [(''category'', PathStr ''category.name'')] ''search-highlight'' False) = [HRef 2] \<and>
   h_getNestedValue
     (snd (searchWithHighlight example_builtins sample_heap [HRef 0] ''elec''
             [(''category'', PathStr ''category.name'')] ''search-highlight'' False))
     (HRef 0) (PathStr ''category.name'') =
     HStr (span_open ''search-highlight'' @ ''Elec'' @ span_close @ ''tronics'') \<and>
   objs (snd (searchWithHighlight example_builtins sample_heap [HRef 0] ''elec''
             [(''category'', PathStr ''category.name'')] ''search-highlight'' False)) 1 \<noteq>
     objs sample_heap 1"
  by code_simp

text \<open>Read at the store itself: after the call, object 1 no longer holds the name it had.\<close>

theorem C2_witness:
  "objs (snd (searchWithHighlight example_builtins sample_heap [HRef 0] ''elec''
             [(''category'', PathStr ''category.name'')] ''search-highlight'' False)) 1 \<noteq>
     Some [(''name'', HStr ''Electronics'')]"
proof -
  have "objs sample_heap 1 = Some [(''name'', HStr ''Electronics'')]"
    by (simp add: sample_heap_def)
  with C2_highlight_mutates_nested_input show ?thesis by simp
qed

end
